theory Spec2Isabelle
  imports Main "HOL-Library.Word" "HOL-Library.Signed_Division" "HOL-Library.Multiset"
begin

unbundle bit_operations_syntax

section \<open>Machine integers\<close>

text \<open>
  The daemon is C on Linux. The model fixes the LP64 widths: \<open>long\<close>, \<open>time_t\<close>,
  \<open>suseconds_t\<close> and \<open>int64_t\<close> are 64-bit words, \<open>int\<close> is a 32-bit word and
  \<open>uint16_t\<close> a 16-bit word. Addition, subtraction and multiplication wrap. C's \<open>/\<close>
  and \<open>%\<close> truncate towards zero; they are written out through \<open>sdiv\<close> and \<open>smod\<close>
  on the signed readings.
\<close>

type_synonym long = "64 word"
type_synonym cint = "32 word"
type_synonym u16 = "16 word"

definition c_div :: "long \<Rightarrow> long \<Rightarrow> long" where
  "c_div a b = word_of_int (sint a sdiv sint b)"

definition c_mod :: "long \<Rightarrow> long \<Rightarrow> long" where
  "c_mod a b = word_of_int (sint a smod sint b)"

section \<open>Time arithmetic\<close>

text \<open>
  \<open>struct timeval\<close> (seconds, microseconds) and \<open>struct timespec\<close> (seconds,
  nanoseconds). Both C structs call their first field \<open>tv_sec\<close>; the fields of the
  timespec record are named \<open>ts_sec\<close> and \<open>ts_nsec\<close> to keep the two apart.

  \<open>buttond.c\<close> includes the time functions from \<open>time_utils.h\<close>, which is not among
  the sources. The earlier revision (\<open>src/unnamed/part_000\<close>) defines
  \<open>time_diff_ts\<close>, \<open>time_diff_tv\<close>, \<open>time_tv2ts\<close> and \<open>time_ts2tv\<close> in its own file;
  these are the definitions below. \<open>time_gettime\<close> reads the monotonic clock: wherever
  the code calls it, the model takes the reading as a parameter.
\<close>

record timeval =
  tv_sec :: long
  tv_usec :: long

record timespec =
  ts_sec :: long
  ts_nsec :: long

definition NSECS_IN_SEC :: long where "NSECS_IN_SEC = 1000000000"
definition NSECS_IN_MSEC :: long where "NSECS_IN_MSEC = 1000000"
definition NSECS_IN_USEC :: long where "NSECS_IN_USEC = 1000"
definition USECS_IN_SEC :: long where "USECS_IN_SEC = 1000000"
definition USECS_IN_MSEC :: long where "USECS_IN_MSEC = 1000"

text \<open>Time difference in milliseconds, \<open>int64_t\<close> result.\<close>

definition time_diff_ts :: "timespec \<Rightarrow> timespec \<Rightarrow> long" where
  "time_diff_ts ts1 ts2 =
     c_div (ts_nsec ts1 - ts_nsec ts2) NSECS_IN_MSEC + (ts_sec ts1 - ts_sec ts2) * 1000"

definition time_diff_tv :: "timeval \<Rightarrow> timeval \<Rightarrow> long" where
  "time_diff_tv tv1 tv2 =
     c_div (tv_usec tv1 - tv_usec tv2) USECS_IN_MSEC + (tv_sec tv1 - tv_sec tv2) * 1000"

text \<open>
  Convert a timeval to a timespec and add \<open>msec\<close>. The \<open>int\<close> offset is promoted to
  \<open>long\<close> (sign extension) before it is multiplied.
\<close>

definition time_tv2ts :: "timeval \<Rightarrow> cint \<Rightarrow> timespec" where
  "time_tv2ts base msec =
     (let nsec = tv_usec base * NSECS_IN_USEC + scast msec * NSECS_IN_MSEC
      in \<lparr>ts_sec = tv_sec base + c_div nsec NSECS_IN_SEC,
          ts_nsec = c_mod nsec NSECS_IN_SEC\<rparr>)"

text \<open>Convert a timespec to a timeval and add \<open>msec\<close>.\<close>

definition time_ts2tv :: "timespec \<Rightarrow> cint \<Rightarrow> timeval" where
  "time_ts2tv base msec =
     (let usec = c_div (ts_nsec base) NSECS_IN_USEC + scast msec * USECS_IN_MSEC
      in \<lparr>tv_sec = ts_sec base + c_div usec USECS_IN_SEC,
          tv_usec = c_mod usec USECS_IN_SEC\<rparr>)"

text \<open>
  Modelled from the spec: \<open>time_add_ts\<close> is declared in \<open>time_utils.h\<close>, which is not
  among the sources. The spec: "add a millisecond offset to a timestamp producing a new
  timestamp, normalizing overflow into the seconds field". The sibling \<open>time_tv2ts\<close>
  above does the same on its own representation.
\<close>

definition time_add_ts :: "timespec \<Rightarrow> cint \<Rightarrow> timespec" where
  "time_add_ts ts msec =
     (let nsec = ts_nsec ts + scast msec * NSECS_IN_MSEC
      in \<lparr>ts_sec = ts_sec ts + c_div nsec NSECS_IN_SEC,
          ts_nsec = c_mod nsec NSECS_IN_SEC\<rparr>)"

text \<open>
  The exact reading of a timestamp, as an unbounded integer count of microseconds or
  nanoseconds, and what a normalised timestamp is. The bound on the seconds field is far
  beyond any uptime and keeps every intermediate value inside 64 bits.
\<close>

definition tv_us :: "timeval \<Rightarrow> int" where
  "tv_us tv = sint (tv_sec tv) * 1000000 + sint (tv_usec tv)"

definition ts_ns :: "timespec \<Rightarrow> int" where
  "ts_ns ts = sint (ts_sec ts) * 1000000000 + sint (ts_nsec ts)"

definition tv_norm :: "timeval \<Rightarrow> bool" where
  "tv_norm tv \<longleftrightarrow> 0 \<le> sint (tv_usec tv) \<and> sint (tv_usec tv) < 1000000
     \<and> - (2 ^ 50) \<le> sint (tv_sec tv) \<and> sint (tv_sec tv) \<le> 2 ^ 50"

definition ts_norm :: "timespec \<Rightarrow> bool" where
  "ts_norm ts \<longleftrightarrow> 0 \<le> sint (ts_nsec ts) \<and> sint (ts_nsec ts) < 1000000000
     \<and> - (2 ^ 50) \<le> sint (ts_sec ts) \<and> sint (ts_sec ts) \<le> 2 ^ 50"

text \<open>
  The claimed reading of a difference function: the exact difference of the two instants,
  in whole milliseconds (C truncation).
\<close>

definition whole_ms_diff_tv :: "timeval \<Rightarrow> timeval \<Rightarrow> int" where
  "whole_ms_diff_tv tv1 tv2 = (tv_us tv1 - tv_us tv2) sdiv 1000"

text \<open>
  Bounds wide enough for the result of one carry: a timestamp made by \<open>time_tv2ts\<close>
  or \<open>time_ts2tv\<close> from a normalised one stays inside them.
\<close>

definition tv_wide :: "timeval \<Rightarrow> bool" where
  "tv_wide tv \<longleftrightarrow> 0 \<le> sint (tv_usec tv) \<and> sint (tv_usec tv) < 1000000
     \<and> - (2 ^ 52) \<le> sint (tv_sec tv) \<and> sint (tv_sec tv) \<le> 2 ^ 52"

definition ts_wide :: "timespec \<Rightarrow> bool" where
  "ts_wide ts \<longleftrightarrow> 0 \<le> sint (ts_nsec ts) \<and> sint (ts_nsec ts) < 1000000000
     \<and> - (2 ^ 52) \<le> sint (ts_sec ts) \<and> sint (ts_sec ts) \<le> 2 ^ 52"

section \<open>Keys and actions\<close>

text \<open>
  \<open>struct action\<close> and \<open>struct key\<close>. The array \<open>actions\<close> with its
  \<open>action_count\<close> is a list; the command \<open>char const *action\<close> is an optional
  string, \<open>None\<close> for \<open>NULL\<close>. The fields \<open>exit_after\<close> and \<open>name\<close> of the
  later header are read by none of the functions below and are left out.
\<close>

datatype type = LONG_PRESS | SHORT_PRESS

record action =
  type :: type
  trigger_time :: cint
  action :: "string option"

datatype state = KEY_RELEASED | KEY_PRESSED | KEY_DEBOUNCE | KEY_HANDLED

record key =
  code :: u16
  has_wakeup :: bool
  actions :: "action list"
  tv_pressed :: timeval
  tv_released :: timeval
  ts_wakeup :: timespec
  state :: state

text \<open>
  \<open>struct input_event\<close> of the kernel: \<open>time\<close>, \<open>type\<close>, \<open>code\<close>, \<open>value\<close>. The
  fields carry the prefix \<open>ev_\<close> because \<open>type\<close> and \<open>code\<close> are fields of the
  records above.
\<close>

record input_event =
  ev_time :: timeval
  ev_type :: u16
  ev_code :: u16
  ev_value :: cint

definition DEFAULT_LONG_PRESS_MSECS :: cint where "DEFAULT_LONG_PRESS_MSECS = 5000"
definition DEFAULT_SHORT_PRESS_MSECS :: cint where "DEFAULT_SHORT_PRESS_MSECS = 1000"
definition DEBOUNCE_MSECS :: cint where "DEBOUNCE_MSECS = 10"

text \<open>What the daemon does to the outside: the lines it prints and the commands it runs.\<close>

datatype effect =
    Print_wakeup_scheduled cint
  | Print_no_wakeup
  | Print_ahead long
  | Print_running "string option" long
  | System "string option"
  | Print_ignoring u16 long
  | Print_key_event long long string string u16 bool string
  | Print_other_event long long string string u16 u16 cint string
  | Print_hup string
  | Sys_close cint
  | Sys_open string

text \<open>
  How a call can fail: a read outside the action array, or a failed \<open>xassert\<close>, which
  prints its message and exits with \<open>EXIT_FAILURE\<close>.
\<close>

datatype error = OutOfBounds | Xassert string

section \<open>Key state machine\<close>

text \<open>
  \<open>key->actions[key->action_count-1]\<close>: with no action the read is out of bounds.
\<close>

definition last_action :: "key \<Rightarrow> error + action" where
  "last_action k =
     (if actions k = [] then Inl OutOfBounds
      else Inr (actions k ! (length (actions k) - 1)))"

text \<open>
  \<open>handle_key\<close> of \<open>buttond.c\<close>. The clock reading that \<open>time_gettime\<close> stores is the
  parameter \<open>now\<close>. The cases \<open>KEY_RELEASED\<close> and \<open>KEY_DEBOUNCE\<close> share one body.
\<close>

definition handle_key :: "timespec \<Rightarrow> input_event \<Rightarrow> key \<Rightarrow> error + key" where
  "handle_key now event k =
     (case state k of
        KEY_PRESSED \<Rightarrow>
          if ev_value event \<noteq> 0 then Inr k
          else Inr (k\<lparr>state := KEY_DEBOUNCE, tv_released := ev_time event,
                       has_wakeup := True, ts_wakeup := time_add_ts now DEBOUNCE_MSECS\<rparr>)
      | KEY_HANDLED \<Rightarrow>
          if ev_value event \<noteq> 0 then Inr k else Inr (k\<lparr>state := KEY_RELEASED\<rparr>)
      | _ \<Rightarrow>
          if ev_value event = 0 then Inr k
          else
            let k1 = (if state k = KEY_RELEASED then k\<lparr>tv_pressed := ev_time event\<rparr> else k);
                k2 = k1\<lparr>state := KEY_PRESSED\<rparr>
            in case last_action k2 of
                 Inl e \<Rightarrow> Inl e
               | Inr a \<Rightarrow>
                   if type a = LONG_PRESS
                   then Inr (k2\<lparr>has_wakeup := True,
                                  ts_wakeup := time_tv2ts (tv_pressed k2) (trigger_time a)\<rparr>)
                   else Inr (k2\<lparr>has_wakeup := False\<rparr>))"

text \<open>
  \<open>handle_key\<close> of the earlier revision (\<open>src/unnamed/part_000\<close>): a press whose last
  action is not a long one leaves the wakeup as it is, and the debounce deadline is
  counted from \<open>tv_pressed\<close>.
\<close>

definition handle_key_old :: "input_event \<Rightarrow> key \<Rightarrow> error + key" where
  "handle_key_old event k =
     (case state k of
        KEY_PRESSED \<Rightarrow>
          if ev_value event \<noteq> 0 then Inr k
          else Inr (k\<lparr>state := KEY_DEBOUNCE, tv_released := ev_time event,
                       has_wakeup := True,
                       ts_wakeup := time_tv2ts (tv_pressed k) DEBOUNCE_MSECS\<rparr>)
      | KEY_HANDLED \<Rightarrow>
          if ev_value event \<noteq> 0 then Inr k else Inr (k\<lparr>state := KEY_RELEASED\<rparr>)
      | _ \<Rightarrow>
          if ev_value event = 0 then Inr k
          else
            let k1 = (if state k = KEY_RELEASED then k\<lparr>tv_pressed := ev_time event\<rparr> else k);
                k2 = k1\<lparr>state := KEY_PRESSED\<rparr>
            in case last_action k2 of
                 Inl e \<Rightarrow> Inl e
               | Inr a \<Rightarrow>
                   if type a = LONG_PRESS
                   then Inr (k2\<lparr>has_wakeup := True,
                                  ts_wakeup := time_tv2ts (tv_pressed k2) (trigger_time a)\<rparr>)
                   else Inr k2)"

section \<open>Timeout scheduler and action matcher\<close>

text \<open>
  \<open>compute_timeout\<close>: \<open>timeout\<close> is an \<open>int\<close>, \<open>diff\<close> an \<open>int64_t\<close>. The comparison
  \<open>diff < timeout\<close> is made in 64 bits; the assignment \<open>timeout = diff\<close> keeps the low
  32 bits.
\<close>

fun compute_timeout_loop :: "timespec \<Rightarrow> key list \<Rightarrow> cint \<Rightarrow> cint" where
  "compute_timeout_loop ts [] timeout = timeout"
| "compute_timeout_loop ts (k # keys) timeout =
     compute_timeout_loop ts keys
       (if has_wakeup k then
          (let diff = time_diff_ts (ts_wakeup k) ts
           in if diff <s 0 then 0
              else if timeout = - 1 \<or> diff <s scast timeout then ucast diff
              else timeout)
        else timeout)"

definition compute_timeout :: "cint \<Rightarrow> timespec \<Rightarrow> key list \<Rightarrow> cint \<times> effect list" where
  "compute_timeout debug ts keys =
     (let timeout = compute_timeout_loop ts keys (- 1)
      in (timeout,
          if 3 <s debug
          then (if 0 \<le>s timeout then [Print_wakeup_scheduled timeout] else [Print_no_wakeup])
          else []))"

text \<open>
  The per-key values \<open>deadline - now\<close> of the keys with a pending wakeup, in table order,
  as \<open>time_diff_ts\<close> returns them.
\<close>

definition pending_diffs :: "timespec \<Rightarrow> key list \<Rightarrow> int list" where
  "pending_diffs ts keys =
     map (\<lambda>k. sint (time_diff_ts (ts_wakeup k) ts)) (filter has_wakeup keys)"

definition action_match :: "action \<Rightarrow> cint \<Rightarrow> bool" where
  "action_match a time =
     (case type a of
        LONG_PRESS \<Rightarrow> trigger_time a \<le>s time
      | SHORT_PRESS \<Rightarrow> time <s trigger_time a)"

text \<open>
  \<open>find_key_action\<close>: the loop runs \<open>i\<close> from \<open>action_count - 1\<close> down to \<open>0\<close>; the
  argument \<open>Suc i\<close> of the loop function stands for the index \<open>i\<close> still to be examined.
\<close>

fun find_key_action_loop :: "action list \<Rightarrow> nat \<Rightarrow> cint \<Rightarrow> action option" where
  "find_key_action_loop acts 0 time = None"
| "find_key_action_loop acts (Suc i) time =
     (if action_match (acts ! i) time then Some (acts ! i)
      else find_key_action_loop acts i time)"

definition find_key_action :: "key \<Rightarrow> cint \<Rightarrow> action option" where
  "find_key_action k time = find_key_action_loop (actions k) (length (actions k)) time"

text \<open>
  The body of the loop of \<open>handle_timeouts\<close> for one key, and the loop. \<open>ts\<close> is the
  clock reading taken once before the loop. \<open>find_key_action\<close> takes an \<open>int\<close>: the
  64-bit \<open>diff\<close> is cut to its low 32 bits at the call.
\<close>

definition handle_timeouts_key :: "cint \<Rightarrow> timespec \<Rightarrow> key \<Rightarrow> key \<times> effect list" where
  "handle_timeouts_key debug ts k =
     (if has_wakeup k \<and> time_diff_ts (ts_wakeup k) ts \<le>s 0 then
        (let k1 = (if state k \<noteq> KEY_DEBOUNCE then k\<lparr>tv_released := time_ts2tv ts 0\<rparr> else k);
             diff = time_diff_tv (tv_released k1) (tv_pressed k1);
             fx = (case find_key_action k1 (ucast diff) of
                     Some a \<Rightarrow>
                       (if debug \<noteq> 0 then [Print_running (action a) diff] else [])
                       @ [System (action a)]
                   | None \<Rightarrow>
                       (if debug \<noteq> 0 then [Print_ignoring (code k1) diff] else []))
         in (k1\<lparr>has_wakeup := False,
                 state := (if state k1 = KEY_DEBOUNCE then KEY_RELEASED else KEY_HANDLED)\<rparr>,
             (if 3 <s debug then [Print_ahead (time_diff_ts (ts_wakeup k) ts)] else []) @ fx))
      else (k, []))"

fun handle_timeouts :: "cint \<Rightarrow> timespec \<Rightarrow> key list \<Rightarrow> key list \<times> effect list" where
  "handle_timeouts debug ts [] = ([], [])"
| "handle_timeouts debug ts (k # keys) =
     (let (k', fx) = handle_timeouts_key debug ts k;
          (keys', fxs) = handle_timeouts debug ts keys
      in (k' # keys', fx @ fxs))"

text \<open>
  One key driven by the dispatch loop: a step is an input event handed to
  \<open>handle_key\<close> (with the clock reading of that moment) or a pass of the timeout
  handler over the key.
\<close>

datatype key_step = Key_event timespec input_event | Timeout timespec

fun key_run :: "cint \<Rightarrow> key \<Rightarrow> key_step list \<Rightarrow> error + key \<times> effect list" where
  "key_run debug k [] = Inr (k, [])"
| "key_run debug k (Key_event now event # steps) =
     (case handle_key now event k of
        Inl e \<Rightarrow> Inl e
      | Inr k' \<Rightarrow> key_run debug k' steps)"
| "key_run debug k (Timeout ts # steps) =
     (let (k', fx) = handle_timeouts_key debug ts k
      in case key_run debug k' steps of
           Inl e \<Rightarrow> Inl e
         | Inr (k'', fxs) \<Rightarrow> Inr (k'', fx @ fxs))"

text \<open>
  The scenario of debounce coalescing: a key with a single short-press action; press at
  0, release at 5 ms, press at 8 ms, release at 50 ms. Every event is handled at the
  clock reading of its own timestamp, and as in the dispatch loop the timeout handler
  runs before each event; it runs again at 15 ms, where the first debounce deadline lay,
  and at 60 ms, the deadline of the second.
\<close>

definition short_only_key ::
    "u16 \<Rightarrow> cint \<Rightarrow> string option \<Rightarrow> timeval \<Rightarrow> timeval \<Rightarrow> timespec \<Rightarrow> key" where
  "short_only_key c trig cmd p r w =
     \<lparr>code = c, has_wakeup = False,
      actions = [\<lparr>type = SHORT_PRESS, trigger_time = trig, action = cmd\<rparr>],
      tv_pressed = p, tv_released = r, ts_wakeup = w, state = KEY_RELEASED\<rparr>"

definition key_event_at :: "u16 \<Rightarrow> long \<Rightarrow> cint \<Rightarrow> key_step" where
  "key_event_at c usec v =
     Key_event \<lparr>ts_sec = 0, ts_nsec = usec * 1000\<rparr>
       \<lparr>ev_time = \<lparr>tv_sec = 0, tv_usec = usec\<rparr>, ev_type = 1, ev_code = c, ev_value = v\<rparr>"

definition timeout_at :: "long \<Rightarrow> key_step" where
  "timeout_at usec = Timeout \<lparr>ts_sec = 0, ts_nsec = usec * 1000\<rparr>"

definition coalescing_steps :: "u16 \<Rightarrow> key_step list" where
  "coalescing_steps c =
     [timeout_at 0, key_event_at c 0 1,
      timeout_at 5000, key_event_at c 5000 0,
      timeout_at 8000, key_event_at c 8000 1,
      timeout_at 15000,
      timeout_at 50000, key_event_at c 50000 0,
      timeout_at 60000]"

definition is_press :: "key_step \<Rightarrow> bool" where
  "is_press s = (case s of Key_event now event \<Rightarrow> ev_value event \<noteq> 0 | Timeout ts \<Rightarrow> True)"

definition is_system :: "effect \<Rightarrow> bool" where
  "is_system e = (case e of System c \<Rightarrow> True | _ \<Rightarrow> False)"

text \<open>The invariant of a key: which states carry a pending wakeup.\<close>

definition key_inv :: "key \<Rightarrow> bool" where
  "key_inv k \<longleftrightarrow>
     (state k = KEY_DEBOUNCE \<longrightarrow> has_wakeup k)
     \<and> (state k = KEY_RELEASED \<or> state k = KEY_HANDLED \<longrightarrow> \<not> has_wakeup k)"

text \<open>
  The order of an action list: every action after the first is a long press, and the
  long presses ascend by trigger time; in the strict reading no two long presses
  share a trigger time.
\<close>

definition longs :: "action list \<Rightarrow> action list" where
  "longs acts = filter (\<lambda>a. type a = LONG_PRESS) acts"

definition actions_sorted :: "action list \<Rightarrow> bool" where
  "actions_sorted acts \<longleftrightarrow>
     list_all (\<lambda>a. type a = LONG_PRESS) (tl acts)
     \<and> sorted_wrt (\<lambda>a b. trigger_time a \<le>s trigger_time b) (longs acts)"

definition actions_sorted_strict :: "action list \<Rightarrow> bool" where
  "actions_sorted_strict acts \<longleftrightarrow>
     list_all (\<lambda>a. type a = LONG_PRESS) (tl acts)
     \<and> sorted_wrt (\<lambda>a b. trigger_time a <s trigger_time b) (longs acts)"

section \<open>Input events\<close>

text \<open>
  \<open>print_key\<close> prints at most one line; the line is kept as the list of the values
  handed to \<open>printf\<close>.
\<close>

definition print_key :: "cint \<Rightarrow> input_event \<Rightarrow> string \<Rightarrow> string \<Rightarrow> effect list" where
  "print_key debug event filename message =
     (if debug <s 1 then []
      else if ev_type event = 0 then []
      else if ev_type event = 1 then
        [Print_key_event (tv_sec (ev_time event)) (c_div (tv_usec (ev_time event)) 1000)
           (if 2 <s debug then filename else [])
           (if 2 <s debug then '' '' else [])
           (ev_code event) (ev_value event \<noteq> 0) message]
      else
        [Print_other_event (tv_sec (ev_time event)) (c_div (tv_usec (ev_time event)) 1000)
           (if 2 <s debug then filename else [])
           (if 2 <s debug then '' '' else [])
           (ev_type event) (ev_code event) (ev_value event) message])"

text \<open>
  The search loop \<open>for (i = 0; i < key_count; i++) if (keys[i].code == code) break\<close>, shared
  by \<open>handle_input_event\<close> and the option parser: the index of the first key with that
  code.
\<close>

fun lookup_key :: "key list \<Rightarrow> u16 \<Rightarrow> nat option" where
  "lookup_key [] c = None"
| "lookup_key (k # ks) c =
     (if code k = c then Some 0 else map_option Suc (lookup_key ks c))"

definition handle_input_event ::
    "cint \<Rightarrow> timespec \<Rightarrow> input_event \<Rightarrow> key list \<Rightarrow> string \<Rightarrow> error + key list \<times> effect list" where
  "handle_input_event debug now event ks filename =
     (if ev_type event \<noteq> 1 then
        Inr (ks, if 2 <s debug then print_key debug event filename ''non-keyboard event ignored''
                 else [])
      else
        case lookup_key ks (ev_code event) of
          None \<Rightarrow>
            Inr (ks, if 1 <s debug then print_key debug event filename ''ignored'' else [])
        | Some i \<Rightarrow>
            (case handle_key now event (ks ! i) of
               Inl e \<Rightarrow> Inl e
             | Inr k' \<Rightarrow> Inr (ks[i := k'], print_key debug event filename ''processing'')))"

section \<open>Configuration\<close>

text \<open>
  \<open>add_short_action\<close> and \<open>add_long_action\<close> fill the slot \<open>actions[action_count]\<close>
  that \<open>main\<close> has just allocated; \<open>main\<close> then sets the command to \<open>NULL\<close> and
  increments \<open>action_count\<close>. The functions return the new action, with the command
  already \<open>None\<close>.
\<close>

definition add_short_action :: "key \<Rightarrow> error + action" where
  "add_short_action k =
     (if list_ex (\<lambda>a. type a = SHORT_PRESS) (actions k)
      then Inl (Xassert ''duplicate short key, aborting.'')
      else Inr \<lparr>type = SHORT_PRESS, trigger_time = DEFAULT_SHORT_PRESS_MSECS, action = None\<rparr>)"

definition add_long_action :: "key \<Rightarrow> error + action" where
  "add_long_action k =
     Inr \<lparr>type = LONG_PRESS, trigger_time = DEFAULT_LONG_PRESS_MSECS, action = None\<rparr>"

definition sort_actions_compare :: "action \<Rightarrow> action \<Rightarrow> int" where
  "sort_actions_compare a1 a2 =
     (if type a1 = SHORT_PRESS then - 1
      else if type a2 = SHORT_PRESS then 1
      else if trigger_time a1 <s trigger_time a2 then - 1
      else if trigger_time a2 <s trigger_time a1 then 1
      else 0)"

text \<open>
  \<open>qsort\<close> is the C library's. The standard fixes only that the result is a permutation
  ordered by the comparison function; the model is an insertion sort that consults the
  comparison function alone.
\<close>

fun qsort_insert :: "('a \<Rightarrow> 'a \<Rightarrow> int) \<Rightarrow> 'a \<Rightarrow> 'a list \<Rightarrow> 'a list" where
  "qsort_insert cmp x [] = [x]"
| "qsort_insert cmp x (y # ys) =
     (if cmp x y \<le> 0 then x # y # ys else y # qsort_insert cmp x ys)"

definition qsort :: "('a \<Rightarrow> 'a \<Rightarrow> int) \<Rightarrow> 'a list \<Rightarrow> 'a list" where
  "qsort cmp xs = foldr (qsort_insert cmp) xs []"

definition sort_actions :: "key \<Rightarrow> key" where
  "sort_actions k = k\<lparr>actions := qsort sort_actions_compare (actions k)\<rparr>"

text \<open>
  The options of \<open>main\<close> that build the key table, with their arguments already converted
  by \<open>strtou16\<close> and \<open>strtoint\<close>: \<open>-s code\<close>, \<open>-l code\<close>, \<open>-a command\<close>, \<open>-t msecs\<close>. The
  pointer \<open>cur_action\<close> is the pair of the index of its key and its index in that key's
  array. A key is created by \<open>memset\<close> to zero, then given its code and
  \<open>KEY_RELEASED\<close>.
\<close>

datatype opt = Opt_s u16 | Opt_l u16 | Opt_a string | Opt_t cint

record config =
  cfg_keys :: "key list"
  cfg_cur_action :: "(nat \<times> nat) option"

definition new_key :: "u16 \<Rightarrow> key" where
  "new_key c =
     \<lparr>code = c, has_wakeup = False, actions = [],
      tv_pressed = \<lparr>tv_sec = 0, tv_usec = 0\<rparr>, tv_released = \<lparr>tv_sec = 0, tv_usec = 0\<rparr>,
      ts_wakeup = \<lparr>ts_sec = 0, ts_nsec = 0\<rparr>, state = KEY_RELEASED\<rparr>"

text \<open>\<open>cur_action && cur_action->action == NULL\<close>: the last action has no command yet.\<close>

definition cur_action_unset :: "config \<Rightarrow> bool" where
  "cur_action_unset cfg =
     (case cfg_cur_action cfg of
        None \<Rightarrow> False
      | Some (i, j) \<Rightarrow> action (actions (cfg_keys cfg ! i) ! j) = None)"

definition update_cur_action :: "config \<Rightarrow> (action \<Rightarrow> action) \<Rightarrow> string \<Rightarrow> error + config" where
  "update_cur_action cfg f msg =
     (case cfg_cur_action cfg of
        None \<Rightarrow> Inl (Xassert msg)
      | Some (i, j) \<Rightarrow>
          let k = cfg_keys cfg ! i
          in Inr (cfg\<lparr>cfg_keys := (cfg_keys cfg)[i := k\<lparr>actions := (actions k)[j := f (actions k ! j)]\<rparr>]\<rparr>))"

definition add_key_action :: "config \<Rightarrow> bool \<Rightarrow> u16 \<Rightarrow> error + config" where
  "add_key_action cfg short c =
     (if cur_action_unset cfg then Inl (Xassert ''Must set action before specifying next key!'')
      else
        let (ks, i) = (case lookup_key (cfg_keys cfg) c of
                         Some i \<Rightarrow> (cfg_keys cfg, i)
                       | None \<Rightarrow> (cfg_keys cfg @ [new_key c], length (cfg_keys cfg)));
            k = ks ! i
        in case (if short then add_short_action k else add_long_action k) of
             Inl e \<Rightarrow> Inl e
           | Inr a \<Rightarrow>
               Inr \<lparr>cfg_keys = ks[i := k\<lparr>actions := actions k @ [a]\<rparr>],
                    cfg_cur_action = Some (i, length (actions k))\<rparr>)"

fun parse_opt :: "config \<Rightarrow> opt \<Rightarrow> error + config" where
  "parse_opt cfg (Opt_s c) = add_key_action cfg True c"
| "parse_opt cfg (Opt_l c) = add_key_action cfg False c"
| "parse_opt cfg (Opt_a cmd) =
     update_cur_action cfg (\<lambda>a. a\<lparr>action := Some cmd\<rparr>)
       ''Action can only be provided after setting key code''"
| "parse_opt cfg (Opt_t t) =
     update_cur_action cfg (\<lambda>a. a\<lparr>trigger_time := t\<rparr>)
       ''Action timeout can only be set after setting key code''"

fun parse_opts :: "config \<Rightarrow> opt list \<Rightarrow> error + config" where
  "parse_opts cfg [] = Inr cfg"
| "parse_opts cfg (x # xs) =
     (case parse_opt cfg x of Inl e \<Rightarrow> Inl e | Inr cfg' \<Rightarrow> parse_opts cfg' xs)"

text \<open>
  The key table as the dispatch loop receives it: the options parsed from an empty table,
  the check that the last action has a command, and \<open>sort_actions\<close> on every key. (The
  other checks of \<open>main\<close> at this point concern the input files and the verbosity.)
\<close>

definition configure :: "opt list \<Rightarrow> error + key list" where
  "configure opts =
     (case parse_opts \<lparr>cfg_keys = [], cfg_cur_action = None\<rparr> opts of
        Inl e \<Rightarrow> Inl e
      | Inr cfg \<Rightarrow>
          if cur_action_unset cfg
          then Inl (Xassert ''Last key press was defined without action'')
          else Inr (map sort_actions (cfg_keys cfg)))"

text \<open>Every key of a table has at most one short press.\<close>

definition one_short :: "key list \<Rightarrow> bool" where
  "one_short ks \<longleftrightarrow> (\<forall>k\<in>set ks. length (filter (\<lambda>a. type a = SHORT_PRESS) (actions k)) \<le> 1)"

section \<open>Dispatch loop\<close>

record pollfd =
  fd :: cint
  events :: "16 word"
  revents :: "16 word"

record input_file =
  filename :: string
  dirent :: "string option"
  inotify_wd :: cint

definition POLLIN :: "16 word" where "POLLIN = 1"
definition POLLHUP :: "16 word" where "POLLHUP = 16"
definition EXIT_FAILURE :: cint where "EXIT_FAILURE = 1"

text \<open>A step of the process either ends it with an exit status or leaves it running.\<close>

datatype 'a proc = Exit cint | Running 'a

text \<open>
  Modelled from the spec: \<open>reopen_input\<close> is called by \<open>main\<close> and defined in none of the
  sources. The spec: the source is "closed and an open attempt retried against the same
  path, with polling registration updated to the new descriptor". What the operating
  system returns for the open is the parameter \<open>os_open\<close>.
\<close>

definition reopen_input :: "(string \<Rightarrow> cint) \<Rightarrow> input_file \<Rightarrow> pollfd \<Rightarrow> pollfd \<times> effect list" where
  "reopen_input os_open f p =
     (p\<lparr>fd := os_open (filename f)\<rparr>, [Sys_close (fd p), Sys_open (filename f)])"

text \<open>
  The body of the loop over the input sources in \<open>main\<close> of \<open>buttond.c\<close>, for one source.
  \<open>handle_input\<close> reads from the descriptor; here it is a parameter that returns its
  result, the key table it leaves and what it printed.
\<close>

definition main_poll_source ::
    "bool \<Rightarrow> (string \<Rightarrow> cint) \<Rightarrow> (cint \<Rightarrow> key list \<Rightarrow> cint \<times> key list \<times> effect list)
      \<Rightarrow> input_file \<Rightarrow> pollfd \<Rightarrow> key list \<Rightarrow> (pollfd \<times> key list \<times> effect list) proc" where
  "main_poll_source test_mode os_open handle_input f p ks =
     (if revents p = 0 then Running (p, ks, [])
      else
        case (if revents p AND POLLIN = 0 then
                (if test_mode then Exit 0
                 else let (p', fx) = reopen_input os_open f p
                      in Running (p', Print_hup (filename f) # fx))
              else Running (p, []))
        of
          Exit n \<Rightarrow> Exit n
        | Running (p1, fx1) \<Rightarrow>
            let (r, ks', fx2) = handle_input (fd p1) ks
            in if r \<noteq> 0
               then let (p2, fx3) = reopen_input os_open f p1
                    in Running (p2, ks', fx1 @ fx2 @ fx3)
               else Running (p1, ks', fx1 @ fx2))"

text \<open>
  The same loop body in \<open>main\<close> of the earlier revision (\<open>src/unnamed/part_000\<close>): a source
  without \<open>POLLIN\<close> ends the process, with \<open>exit(0)\<close> in test mode and through
  \<open>xassert(false, ...)\<close> otherwise; \<open>handle_input\<close> returns nothing and may itself exit.
\<close>

definition main_poll_source_old ::
    "bool \<Rightarrow> (cint \<Rightarrow> key list \<Rightarrow> (key list \<times> effect list) proc)
      \<Rightarrow> pollfd \<Rightarrow> key list \<Rightarrow> (pollfd \<times> key list \<times> effect list) proc" where
  "main_poll_source_old test_mode handle_input p ks =
     (if revents p = 0 then Running (p, ks, [])
      else if revents p AND POLLIN = 0 then
        (if test_mode then Exit 0 else Exit EXIT_FAILURE)
      else
        case handle_input (fd p) ks of
          Exit n \<Rightarrow> Exit n
        | Running (ks', fx) \<Rightarrow> Running (p, ks', fx))"

section \<open>Arithmetic of the time functions\<close>

lemmas time_consts =
  NSECS_IN_SEC_def NSECS_IN_MSEC_def NSECS_IN_USEC_def USECS_IN_SEC_def USECS_IN_MSEC_def

lemma sdiv_pos: "0 < l \<Longrightarrow> (k::int) sdiv l = (if 0 \<le> k then k div l else - ((- k) div l))"
  by (simp add: signed_divide_int_def sgn_if)

lemma smod_pos: "0 < l \<Longrightarrow> (k::int) smod l = (if 0 \<le> k then k mod l else - ((- k) mod l))"
  by (simp add: signed_modulo_int_def sgn_if)

lemma sdiv_pos_bounds:
  assumes "0 < (l::int)"
  shows "(0 \<le> k \<longrightarrow> 0 \<le> k sdiv l \<and> k sdiv l \<le> k) \<and> (k < 0 \<longrightarrow> k \<le> k sdiv l \<and> k sdiv l \<le> 0)"
proof -
  have a: "0 \<le> k \<Longrightarrow> 0 \<le> k div l \<and> k div l \<le> k"
    using assms int_div_le_self [of k l] by (cases "k = 0") (simp_all add: pos_imp_zdiv_nonneg_iff)
  have b: "k < 0 \<Longrightarrow> 0 \<le> (- k) div l \<and> (- k) div l \<le> - k"
    using assms int_div_le_self [of "- k" l] by (simp add: pos_imp_zdiv_nonneg_iff)
  show ?thesis using a b by (auto simp: sdiv_pos [OF assms])
qed

lemma sint_c_div: "0 < sint b \<Longrightarrow> sint (c_div a b) = sint a sdiv sint b"
proof -
  assume b: "0 < sint b"
  have lo: "- (2 ^ 63) \<le> sint a" using sint_ge [of a] by simp
  have hi: "sint a < 2 ^ 63" using sint_lt [of a] by simp
  have "- (2 ^ 63) \<le> sint a sdiv sint b \<and> sint a sdiv sint b < 2 ^ 63"
    using sdiv_pos_bounds [OF b, of "sint a"] lo hi by (cases "0 \<le> sint a") auto
  then show ?thesis
    by (simp add: c_div_def sint_sbintrunc' signed_take_bit_int_eq_self)
qed

lemma sint_c_mod: "0 < sint b \<Longrightarrow> sint (c_mod a b) = sint a smod sint b"
proof -
  assume b: "0 < sint b"
  have r: "sint a smod sint b \<in> {- \<bar>sint b\<bar> + 1..\<bar>sint b\<bar> - 1}" by (rule smod_int_range) (use b in simp)
  have hi: "sint b < 2 ^ 63" using sint_lt [of b] by simp
  have "- (2 ^ 63) \<le> sint a smod sint b \<and> sint a smod sint b < 2 ^ 63"
    using r b hi by (auto simp: abs_if split: if_splits)
  then show ?thesis
    by (simp add: c_mod_def sint_sbintrunc' signed_take_bit_int_eq_self)
qed

lemma sint_sub64: "- 9223372036854775808 \<le> sint a - sint b \<Longrightarrow> sint a - sint b < 9223372036854775808 \<Longrightarrow>
  sint (a - b :: long) = sint a - sint b"
  by (simp add: sint_word_diff signed_take_bit_int_eq_self)
lemma sint_add64: "- 9223372036854775808 \<le> sint a + sint b \<Longrightarrow> sint a + sint b < 9223372036854775808 \<Longrightarrow>
  sint (a + b :: long) = sint a + sint b"
  by (simp add: sint_word_add signed_take_bit_int_eq_self)
lemma sint_mult64: "- 9223372036854775808 \<le> sint a * sint b \<Longrightarrow> sint a * sint b < 9223372036854775808 \<Longrightarrow>
  sint (a * b :: long) = sint a * sint b"
  by (simp add: sint_word_mult signed_take_bit_int_eq_self)

lemma sint_scast_cint: "sint (scast (m :: cint) :: long) = sint m"
  by (simp add: sint_up_scast is_up)

lemma sint_cint_range: "- (2 ^ 31) \<le> sint (m :: cint) \<and> sint m < 2 ^ 31"
  using sint_ge [of m] sint_lt [of m] by simp

lemma tv_norm_wide: "tv_norm tv \<Longrightarrow> tv_wide tv"
  by (simp add: tv_norm_def tv_wide_def)

lemma ts_norm_wide: "ts_norm ts \<Longrightarrow> ts_wide ts"
  by (simp add: ts_norm_def ts_wide_def)

lemma sint_diff_ms:
  fixes a b sa sb d :: long
  assumes a: "0 \<le> sint a" "sint a < 1000000000" and b: "0 \<le> sint b" "sint b < 1000000000"
    and sa: "- 4503599627370496 \<le> sint sa" "sint sa \<le> 4503599627370496"
    and sb: "- 4503599627370496 \<le> sint sb" "sint sb \<le> 4503599627370496"
    and d: "0 < sint d"
  shows "sint (c_div (a - b) d + (sa - sb) * 1000)
           = (sint a - sint b) sdiv sint d + (sint sa - sint sb) * 1000"
proof -
  have 1: "sint (a - b) = sint a - sint b"
    by (rule sint_sub64) (use a b in linarith)+
  have 2: "sint (c_div (a - b) d) = (sint a - sint b) sdiv sint d"
    by (simp only: sint_c_div [OF d] 1)
  have 3: "sint (sa - sb) = sint sa - sint sb"
    by (rule sint_sub64) (use sa sb in linarith)+
  have k: "sint (1000 :: long) = 1000" by simp
  have 4: "sint ((sa - sb) * 1000) = (sint sa - sint sb) * 1000"
  proof -
    have "- 9223372036854775808 \<le> sint (sa - sb) * sint (1000 :: long)"
      unfolding 3 k using sa sb by simp
    moreover have "sint (sa - sb) * sint (1000 :: long) < 9223372036854775808"
      unfolding 3 k using sa sb by simp
    ultimately have "sint ((sa - sb) * 1000) = sint (sa - sb) * sint (1000 :: long)"
      by (rule sint_mult64)
    then show ?thesis by (simp only: 3 k)
  qed
  have 5: "- 1000000000 < (sint a - sint b) sdiv sint d \<and> (sint a - sint b) sdiv sint d < 1000000000"
    using sdiv_pos_bounds [OF d, of "sint a - sint b"] a b by (cases "0 \<le> sint a - sint b") auto
  have "- 9223372036854775808 \<le> sint (c_div (a - b) d) + sint ((sa - sb) * 1000)"
    unfolding 2 4 using sa sb 5 by simp
  moreover have "sint (c_div (a - b) d) + sint ((sa - sb) * 1000) < 9223372036854775808"
    unfolding 2 4 using sa sb 5 by simp
  ultimately have "sint (c_div (a - b) d + (sa - sb) * 1000) = sint (c_div (a - b) d) + sint ((sa - sb) * 1000)"
    by (rule sint_add64)
  then show ?thesis by (simp only: 2 4)
qed

lemma time_diff_tv_sint:
  assumes "tv_wide a" "tv_wide b"
  shows "sint (time_diff_tv a b)
           = (sint (tv_usec a) - sint (tv_usec b)) sdiv 1000
             + (sint (tv_sec a) - sint (tv_sec b)) * 1000"
  using assms unfolding time_diff_tv_def tv_wide_def USECS_IN_MSEC_def
  by (subst sint_diff_ms) simp_all

lemma time_diff_ts_sint:
  assumes "ts_wide a" "ts_wide b"
  shows "sint (time_diff_ts a b)
           = (sint (ts_nsec a) - sint (ts_nsec b)) sdiv 1000000
             + (sint (ts_sec a) - sint (ts_sec b)) * 1000"
  using assms unfolding time_diff_ts_def ts_wide_def NSECS_IN_MSEC_def
  by (subst sint_diff_ms) simp_all

lemma sdiv_err:
  assumes "0 < (l::int)"
  shows "\<bar>l * (d sdiv l) - d\<bar> < l" and "l dvd d \<Longrightarrow> l * (d sdiv l) = d"
proof -
  have m1: "0 \<le> d mod l \<and> d mod l < l" using assms by simp
  have m2: "0 \<le> (- d) mod l \<and> (- d) mod l < l" using assms by simp
  have e1: "l * (d div l) = d - d mod l" by (metis minus_mod_eq_mult_div)
  have e2: "l * ((- d) div l) = - d - (- d) mod l" by (metis minus_mod_eq_mult_div)
  show "\<bar>l * (d sdiv l) - d\<bar> < l"
    using m1 m2 e1 e2 by (simp add: sdiv_pos [OF assms])
  show "l * (d sdiv l) = d" if "l dvd d"
    using that e1 e2 by (simp add: sdiv_pos [OF assms])
qed

lemma carry_norm:
  fixes n s D :: long
  assumes n: "0 \<le> sint n" "sint n < 2251799813685248" and D: "0 < sint D"
    and s: "- 1125899906842624 \<le> sint s" "sint s \<le> 1125899906842624"
  shows "sint (c_mod n D) = sint n mod sint D"
    and "sint (s + c_div n D) = sint s + sint n div sint D"
    and "0 \<le> sint n div sint D \<and> sint n div sint D \<le> sint n"
proof -
  show "sint (c_mod n D) = sint n mod sint D"
    using n D by (simp add: sint_c_mod smod_pos)
  have q: "sint (c_div n D) = sint n div sint D"
    using n D by (simp add: sint_c_div sdiv_pos)
  show b: "0 \<le> sint n div sint D \<and> sint n div sint D \<le> sint n"
    using sdiv_pos_bounds [OF D, of "sint n"] n D by (simp add: sdiv_pos)
  have "- 9223372036854775808 \<le> sint s + sint (c_div n D)"
    unfolding q using b n s by linarith
  moreover have "sint s + sint (c_div n D) < 9223372036854775808"
    unfolding q using b n s by linarith
  ultimately have "sint (s + c_div n D) = sint s + sint (c_div n D)"
    by (rule sint_add64)
  then show "sint (s + c_div n D) = sint s + sint n div sint D"
    by (simp only: q)
qed

lemma sint_scale:
  fixes a c :: long
  assumes "- 2147483648 \<le> sint a" "sint a < 2147483648" "0 \<le> sint c" "sint c \<le> 1000000"
  shows "sint (a * c) = sint a * sint c"
proof -
  have 1: "\<bar>sint a * sint c\<bar> \<le> 2147483648 * 1000000"
    unfolding abs_mult using assms by (intro mult_mono) auto
  have "- 9223372036854775808 \<le> sint a * sint c" using 1 by linarith
  moreover have "sint a * sint c < 9223372036854775808" using 1 by linarith
  ultimately show ?thesis by (rule sint_mult64)
qed

lemma tv2ts_nsec_sum:
  fixes msec :: cint
  assumes b: "0 \<le> sint (tv_usec base)" "sint (tv_usec base) < 1000000" and m: "0 \<le> sint msec"
  shows "sint (tv_usec base * NSECS_IN_USEC + scast msec * NSECS_IN_MSEC)
           = sint (tv_usec base) * 1000 + sint msec * 1000000"
proof -
  have r: "sint msec < 2147483648" using sint_cint_range [of msec] by simp
  have 1: "sint (tv_usec base * NSECS_IN_USEC) = sint (tv_usec base) * 1000"
    using b by (subst sint_scale) (simp_all add: NSECS_IN_USEC_def)
  have 2: "sint ((scast msec :: long) * NSECS_IN_MSEC) = sint msec * 1000000"
    using m r by (subst sint_scale) (simp_all add: NSECS_IN_MSEC_def sint_scast_cint)
  have "- 9223372036854775808 \<le> sint (tv_usec base * NSECS_IN_USEC) + sint ((scast msec :: long) * NSECS_IN_MSEC)"
    unfolding 1 2 using b m r by linarith
  moreover have "sint (tv_usec base * NSECS_IN_USEC) + sint ((scast msec :: long) * NSECS_IN_MSEC) < 9223372036854775808"
    unfolding 1 2 using b m r by linarith
  ultimately have "sint (tv_usec base * NSECS_IN_USEC + scast msec * NSECS_IN_MSEC)
      = sint (tv_usec base * NSECS_IN_USEC) + sint ((scast msec :: long) * NSECS_IN_MSEC)"
    by (rule sint_add64)
  then show ?thesis by (simp only: 1 2)
qed

lemma time_tv2ts_fields:
  assumes b: "tv_norm base" and m: "0 \<le> sint msec"
  defines "N \<equiv> sint (tv_usec base) * 1000 + sint msec * 1000000"
  shows "sint (ts_nsec (time_tv2ts base msec)) = N mod 1000000000"
    and "sint (ts_sec (time_tv2ts base msec)) = sint (tv_sec base) + N div 1000000000"
    and "0 \<le> N div 1000000000 \<and> N div 1000000000 \<le> N \<and> N < 2251799813685248"
proof -
  let ?n = "tv_usec base * NSECS_IN_USEC + scast msec * NSECS_IN_MSEC"
  have r: "sint msec < 2147483648" using sint_cint_range [of msec] by simp
  have u: "0 \<le> sint (tv_usec base)" "sint (tv_usec base) < 1000000"
    and s: "- 1125899906842624 \<le> sint (tv_sec base)" "sint (tv_sec base) \<le> 1125899906842624"
    using b by (simp_all add: tv_norm_def)
  have n: "sint ?n = N" unfolding N_def using u m by (rule tv2ts_nsec_sum)
  have n0: "0 \<le> sint ?n" unfolding n N_def using u m by linarith
  have n1: "sint ?n < 2251799813685248" unfolding n N_def using u r by linarith
  have D: "0 < sint NSECS_IN_SEC" and D': "sint NSECS_IN_SEC = 1000000000"
    by (simp_all add: NSECS_IN_SEC_def)
  note c = carry_norm [OF n0 n1 D s]
  show "sint (ts_nsec (time_tv2ts base msec)) = N mod 1000000000"
    using c(1) by (simp add: time_tv2ts_def Let_def n D')
  show "sint (ts_sec (time_tv2ts base msec)) = sint (tv_sec base) + N div 1000000000"
    using c(2) by (simp add: time_tv2ts_def Let_def n D')
  show "0 \<le> N div 1000000000 \<and> N div 1000000000 \<le> N \<and> N < 2251799813685248"
    using c(3) n1 by (simp add: n D')
qed

lemma time_tv2ts_wide:
  assumes "tv_norm base" "0 \<le> sint msec"
  shows "ts_wide (time_tv2ts base msec)"
  using time_tv2ts_fields [OF assms] assms(1)
  by (simp add: ts_wide_def tv_norm_def)

lemma time_tv2ts_ns:
  assumes "tv_norm base" "0 \<le> sint msec"
  shows "ts_ns (time_tv2ts base msec) = tv_us base * 1000 + sint msec * 1000000"
  using time_tv2ts_fields(1,2) [OF assms]
  by (simp add: ts_ns_def tv_us_def algebra_simps)

lemma time_tv2ts_diff:
  assumes b: "tv_norm base" and m: "0 \<le> sint msec"
  shows "sint (time_diff_ts (time_tv2ts base msec) (time_tv2ts base 0)) = sint msec"
proof -
  define N where "N = sint (tv_usec base) * 1000 + sint msec * 1000000"
  define q where "q = N div 1000000000"
  have u: "0 \<le> sint (tv_usec base)" "sint (tv_usec base) < 1000000"
    using b by (simp_all add: tv_norm_def)
  have f: "sint (ts_nsec (time_tv2ts base msec)) = N mod 1000000000"
    "sint (ts_sec (time_tv2ts base msec)) = sint (tv_sec base) + q"
    using time_tv2ts_fields(1,2) [OF b m] by (simp_all add: N_def q_def)
  have z: "sint (ts_nsec (time_tv2ts base 0)) = sint (tv_usec base) * 1000"
    "sint (ts_sec (time_tv2ts base 0)) = sint (tv_sec base)"
    using time_tv2ts_fields(1,2) [OF b, of 0] u by simp_all
  have w: "ts_wide (time_tv2ts base msec)" "ts_wide (time_tv2ts base 0)"
    using time_tv2ts_wide [OF b m] time_tv2ts_wide [OF b, of 0] by simp_all
  have "N mod 1000000000 = N - 1000000000 * q"
    unfolding q_def by (metis minus_mult_div_eq_mod)
  then have d: "N mod 1000000000 - sint (tv_usec base) * 1000 = 1000000 * (sint msec - 1000 * q)"
    by (simp add: N_def)
  have "1000000 * ((1000000 * (sint msec - 1000 * q)) sdiv 1000000) = 1000000 * (sint msec - 1000 * q)"
    by (rule sdiv_err(2)) simp_all
  then have e: "(1000000 * (sint msec - 1000 * q)) sdiv 1000000 = sint msec - 1000 * q"
    by simp
  show ?thesis
    by (simp only: time_diff_ts_sint [OF w] f z d e) simp
qed

lemma time_diff_ts_le0:
  assumes w: "ts_wide a" "ts_wide b" and le: "ts_ns a \<le> ts_ns b"
  shows "sint (time_diff_ts a b) \<le> 0"
proof -
  let ?A = "sint (ts_nsec a) - sint (ts_nsec b)"
  have "\<bar>1000000 * (?A sdiv 1000000) - ?A\<bar> < 1000000" by (rule sdiv_err(1)) simp
  then show ?thesis
    using le by (simp add: time_diff_ts_sint [OF w] ts_ns_def)
qed

lemma time_diff_tv_ge:
  assumes w: "tv_wide r" "tv_wide p" and ge: "1000 * T \<le> tv_us r - tv_us p"
  shows "T \<le> sint (time_diff_tv r p)"
proof -
  let ?A = "sint (tv_usec r) - sint (tv_usec p)"
  have "\<bar>1000 * (?A sdiv 1000) - ?A\<bar> < 1000" by (rule sdiv_err(1)) simp
  then show ?thesis
    using ge by (simp add: time_diff_tv_sint [OF w] tv_us_def)
qed

lemma time_diff_tv_err:
  assumes w: "tv_wide a" "tv_wide b"
  shows "\<bar>1000 * sint (time_diff_tv a b) - (tv_us a - tv_us b)\<bar> < 1000"
proof -
  let ?A = "sint (tv_usec a) - sint (tv_usec b)"
  have "\<bar>1000 * (?A sdiv 1000) - ?A\<bar> < 1000" by (rule sdiv_err(1)) simp
  then show ?thesis
    by (simp add: time_diff_tv_sint [OF w] tv_us_def)
qed

lemma time_diff_ts_err:
  assumes w: "ts_wide a" "ts_wide b"
  shows "\<bar>1000000 * sint (time_diff_ts a b) - (ts_ns a - ts_ns b)\<bar> < 1000000"
proof -
  let ?A = "sint (ts_nsec a) - sint (ts_nsec b)"
  have "\<bar>1000000 * (?A sdiv 1000000) - ?A\<bar> < 1000000" by (rule sdiv_err(1)) simp
  then show ?thesis
    by (simp add: time_diff_ts_sint [OF w] ts_ns_def)
qed

section \<open>The action matcher\<close>

lemma find_key_action_loop_find:
  "n \<le> length acts \<Longrightarrow>
   find_key_action_loop acts n time = List.find (\<lambda>a. action_match a time) (rev (take n acts))"
proof (induction n)
  case 0
  then show ?case by simp
next
  case (Suc n)
  then have "take (Suc n) acts = take n acts @ [acts ! n]"
    by (simp add: take_Suc_conv_app_nth)
  with Suc show ?case by simp
qed

lemma find_key_action_find:
  "find_key_action k time = List.find (\<lambda>a. action_match a time) (rev (actions k))"
  by (simp add: find_key_action_def find_key_action_loop_find)

lemma actions_sorted_butlast:
  assumes "actions_sorted (ys @ [y])"
  shows "actions_sorted ys"
    and "ys \<noteq> [] \<Longrightarrow> type y = LONG_PRESS"
    and "type y = LONG_PRESS \<Longrightarrow> \<forall>b\<in>set ys. type b = LONG_PRESS \<longrightarrow> trigger_time b \<le>s trigger_time y"
proof -
  have t: "tl (ys @ [y]) = (if ys = [] then [] else tl ys @ [y])" by (cases ys) simp_all
  show "actions_sorted ys"
    using assms by (cases ys) (auto simp: actions_sorted_def longs_def sorted_wrt_append t)
  show "type y = LONG_PRESS" if "ys \<noteq> []"
    using assms that by (simp add: actions_sorted_def t)
  show "\<forall>b\<in>set ys. type b = LONG_PRESS \<longrightarrow> trigger_time b \<le>s trigger_time y" if "type y = LONG_PRESS"
    using assms that by (auto simp: actions_sorted_def longs_def sorted_wrt_append)
qed

lemma longest_tier:
  assumes "actions_sorted acts"
    and "\<exists>b\<in>set acts. type b = LONG_PRESS \<and> trigger_time b \<le>s time"
  shows "\<exists>a. List.find (\<lambda>a. action_match a time) (rev acts) = Some a
            \<and> a \<in> set acts \<and> type a = LONG_PRESS \<and> trigger_time a \<le>s time
            \<and> (\<forall>b\<in>set acts. type b = LONG_PRESS \<and> trigger_time b \<le>s time
                  \<longrightarrow> trigger_time b \<le>s trigger_time a)"
  using assms
proof (induction acts rule: rev_induct)
  case Nil
  then show ?case by simp
next
  case (snoc y ys)
  note s = actions_sorted_butlast [OF snoc.prems(1)]
  show ?case
  proof (cases "action_match y time")
    case True
    have ty: "type y = LONG_PRESS"
    proof (cases "ys = []")
      case True
      with snoc.prems(2) show ?thesis by simp
    next
      case False
      then show ?thesis by (rule s(2))
    qed
    with True have "trigger_time y \<le>s time" by (simp add: action_match_def)
    with True ty s(3) show ?thesis by auto
  next
    case False
    then have ny: "\<not> (type y = LONG_PRESS \<and> trigger_time y \<le>s time)"
      by (auto simp: action_match_def)
    with snoc.prems(2) have "\<exists>b\<in>set ys. type b = LONG_PRESS \<and> trigger_time b \<le>s time"
      by auto
    from snoc.IH [OF s(1) this] obtain a where
      a: "List.find (\<lambda>a. action_match a time) (rev ys) = Some a" "a \<in> set ys"
         "type a = LONG_PRESS" "trigger_time a \<le>s time"
         "\<forall>b\<in>set ys. type b = LONG_PRESS \<and> trigger_time b \<le>s time
              \<longrightarrow> trigger_time b \<le>s trigger_time a"
      by blast
    with False ny show ?thesis by auto
  qed
qed

section \<open>The wait computed by the scheduler\<close>

lemma sint_cint_minus1: "(sint (t :: cint) = - 1) = (t = - 1)"
  by (metis signed_minus_1 signed_word_eqI)

lemma sint_ucast_long: "0 \<le> sint (w :: long) \<Longrightarrow> sint w < 2147483648 \<Longrightarrow> sint (ucast w :: cint) = sint w"
proof -
  assume a: "0 \<le> sint w" "sint w < 2147483648"
  have "uint w = sint w"
    using a by (simp add: uint_sint take_bit_int_eq_self)
  then have "(ucast w :: cint) = word_of_int (sint w)" by (simp only: ucast_eq)
  then have "sint (ucast w :: cint) = signed_take_bit 31 (sint w)"
    by (simp only: sint_sbintrunc') simp
  then show ?thesis using a by (simp add: signed_take_bit_int_eq_self)
qed

text \<open>One round of the loop of \<open>compute_timeout\<close> on unbounded integers.\<close>

lemma timeout_step_sint:
  fixes diff :: long and t :: cint
  assumes "sint diff < 2147483648"
  shows "sint (if diff <s 0 then 0 else if t = - 1 \<or> diff <s scast t then ucast diff else t)
         = (if sint diff < 0 then 0
            else if sint t = - 1 \<or> sint diff < sint t then sint diff else sint t)"
  using assms
  by (simp add: word_sless_alt sint_scast_cint sint_cint_minus1 sint_ucast_long)

lemma fold_timeout_step:
  fixes t :: int
  assumes "- 1 \<le> t"
  shows "fold (\<lambda>d t. if d < 0 then 0 else if t = - 1 \<or> d < t then d else t) ds t
         = (if ds = [] then t
            else if t = - 1 then max 0 (Min (set ds))
            else min t (max 0 (Min (set ds))))"
  using assms
proof (induction ds arbitrary: t)
  case Nil
  then show ?case by simp
next
  case (Cons d ds)
  let ?t = "if d < 0 then 0 else if t = - 1 \<or> d < t then d else t"
  have t1: "- 1 \<le> ?t" using Cons.prems by simp
  show ?case
  proof (cases "ds = []")
    case True
    then show ?thesis using Cons.prems by (simp add: min_def max_def)
  next
    case False
    then have m: "Min (insert d (set ds)) = min d (Min (set ds))" by simp
    have "fold (\<lambda>d t. if d < 0 then 0 else if t = - 1 \<or> d < t then d else t) (d # ds) t
        = fold (\<lambda>d t. if d < 0 then 0 else if t = - 1 \<or> d < t then d else t) ds ?t"
      by simp
    also have "\<dots> = (if ?t = - 1 then max 0 (Min (set ds)) else min ?t (max 0 (Min (set ds))))"
      using Cons.IH [OF t1] False by simp
    also have "\<dots> = (if t = - 1 then max 0 (min d (Min (set ds)))
                      else min t (max 0 (min d (Min (set ds)))))"
      using Cons.prems by (simp add: min_def max_def)
    finally show ?thesis using False by (simp add: m)
  qed
qed

lemma compute_timeout_loop_fold:
  assumes "\<forall>d\<in>set (pending_diffs ts keys). d < 2147483648"
  shows "sint (compute_timeout_loop ts keys t)
         = fold (\<lambda>d t. if d < 0 then 0 else if t = - 1 \<or> d < t then d else t)
             (pending_diffs ts keys) (sint t)"
  using assms
proof (induction keys arbitrary: t)
  case Nil
  then show ?case by (simp add: pending_diffs_def)
next
  case (Cons k keys)
  have r: "\<forall>d\<in>set (pending_diffs ts keys). d < 2147483648"
    using Cons.prems by (simp add: pending_diffs_def)
  show ?case
  proof (cases "has_wakeup k")
    case False
    then show ?thesis using Cons.IH [OF r] by (simp add: pending_diffs_def)
  next
    case True
    then have d: "sint (time_diff_ts (ts_wakeup k) ts) < 2147483648"
      using Cons.prems by (simp add: pending_diffs_def)
    have p: "pending_diffs ts (k # keys) = sint (time_diff_ts (ts_wakeup k) ts) # pending_diffs ts keys"
      using True by (simp add: pending_diffs_def)
    show ?thesis
      using True by (simp only: compute_timeout_loop.simps if_True Let_def Cons.IH [OF r]
          timeout_step_sint [OF d] p fold_Cons comp_apply)
  qed
qed

section \<open>Evaluating runs of the state machine\<close>

lemmas run_eval =
  handle_key_def handle_timeouts_key_def last_action_def find_key_action_def action_match_def
  time_add_ts_def time_tv2ts_def time_ts2tv_def time_diff_ts_def time_diff_tv_def
  c_div_def c_mod_def signed_divide_int_def signed_modulo_int_def
  NSECS_IN_SEC_def NSECS_IN_MSEC_def NSECS_IN_USEC_def USECS_IN_SEC_def USECS_IN_MSEC_def
  DEBOUNCE_MSECS_def word_sle_eq word_sless_alt Let_def

text \<open>The loop of \<open>handle_timeouts\<close> applies its body to each key in turn.\<close>

lemma handle_timeouts_keys:
  "fst (handle_timeouts debug ts ks) = map (\<lambda>k. fst (handle_timeouts_key debug ts k)) ks"
  by (induction ks) (simp_all add: case_prod_unfold Let_def)

lemma handle_timeouts_effects:
  "snd (handle_timeouts debug ts ks) = concat (map (\<lambda>k. snd (handle_timeouts_key debug ts k)) ks)"
  by (induction ks) (simp_all add: case_prod_unfold Let_def)

section \<open>A key held past its long-press deadline\<close>

lemma time_ts2tv_zero:
  assumes "ts_norm now"
  shows "tv_wide (time_ts2tv now 0)"
    and "tv_us (time_ts2tv now 0) = ts_ns now div 1000"
proof -
  have n: "0 \<le> sint (ts_nsec now)" "sint (ts_nsec now) < 1000000000"
    and s: "- 1125899906842624 \<le> sint (ts_sec now)" "sint (ts_sec now) \<le> 1125899906842624"
    using assms by (simp_all add: ts_norm_def)
  let ?u = "c_div (ts_nsec now) NSECS_IN_USEC"
  have u: "sint ?u = sint (ts_nsec now) div 1000"
    using n by (simp add: sint_c_div sdiv_pos NSECS_IN_USEC_def)
  have u0: "0 \<le> sint ?u" unfolding u using n by simp
  have u1: "sint ?u < 1000000" unfolding u using n by simp
  have u2: "sint ?u < 2251799813685248" using u1 by linarith
  have D: "0 < sint USECS_IN_SEC" and D': "sint USECS_IN_SEC = 1000000"
    by (simp_all add: USECS_IN_SEC_def)
  note c = carry_norm [OF u0 u2 D s]
  have e: "time_ts2tv now 0 = \<lparr>tv_sec = ts_sec now + c_div ?u USECS_IN_SEC, tv_usec = c_mod ?u USECS_IN_SEC\<rparr>"
    by (simp add: time_ts2tv_def Let_def)
  have f1: "sint (tv_usec (time_ts2tv now 0)) = sint (ts_nsec now) div 1000"
    using c(1) u0 u1 by (simp add: e D' u)
  have f2: "sint (tv_sec (time_ts2tv now 0)) = sint (ts_sec now)"
    using c(2) u0 u1 by (simp add: e D' u)
  have b: "0 \<le> sint (ts_nsec now) div 1000 \<and> sint (ts_nsec now) div 1000 < 1000000"
    using u0 u1 unfolding u by simp
  show "tv_wide (time_ts2tv now 0)"
    using b s by (simp add: tv_wide_def f1 f2)
  have "(sint (ts_sec now) * 1000000000 + sint (ts_nsec now)) div 1000
      = sint (ts_sec now) * 1000000 + sint (ts_nsec now) div 1000"
    by (simp add: div_plus_div_distrib_dvd_left)
  then show "tv_us (time_ts2tv now 0) = ts_ns now div 1000"
    by (simp add: tv_us_def ts_ns_def f1 f2)
qed

lemma last_action_last:
  "actions k \<noteq> [] \<Longrightarrow> last_action k = Inr (last (actions k))"
  by (simp add: last_action_def last_conv_nth)

lemma find_key_action_last:
  assumes "actions k \<noteq> []" "action_match (last (actions k)) time"
  shows "find_key_action k time = Some (last (actions k))"
proof -
  from assms(1) obtain ys y where a: "actions k = ys @ [y]"
    by (metis append_butlast_last_id)
  with assms(2) show ?thesis by (simp add: find_key_action_find)
qed

lemma handled_ignores:
  assumes "state k = KEY_HANDLED" "\<not> has_wakeup k" "list_all is_press steps"
  shows "key_run debug k steps = Inr (k, [])"
  using assms(3)
proof (induction steps)
  case Nil
  then show ?case by simp
next
  case (Cons s steps)
  show ?case
  proof (cases s)
    case (Key_event now ev)
    with Cons.prems have "ev_value ev \<noteq> 0" by (simp add: is_press_def)
    then have "handle_key now ev k = Inr k" using assms(1) by (simp add: handle_key_def)
    with Cons Key_event show ?thesis by simp
  next
    case (Timeout ts)
    have "handle_timeouts_key debug ts k = (k, [])"
      using assms(2) by (simp add: handle_timeouts_key_def)
    with Cons Timeout show ?thesis by simp
  qed
qed

lemma press_arms_wakeup:
  assumes "state k0 = KEY_RELEASED" "actions k0 \<noteq> []" "type (last (actions k0)) = LONG_PRESS"
    and "ev_value ev \<noteq> 0"
  shows "handle_key n0 ev k0
         = Inr (k0\<lparr>tv_pressed := ev_time ev, state := KEY_PRESSED, has_wakeup := True,
                   ts_wakeup := time_tv2ts (ev_time ev) (trigger_time (last (actions k0)))\<rparr>)"
  using assms by (simp add: handle_key_def Let_def last_action_last)

lemma held_timeout_fires:
  fixes k :: key
  assumes acts: "actions k \<noteq> []" "type (last (actions k)) = LONG_PRESS"
      "0 \<le> sint (trigger_time (last (actions k)))"
    and st: "state k = KEY_PRESSED" "has_wakeup k"
      "ts_wakeup k = time_tv2ts (tv_pressed k) (trigger_time (last (actions k)))"
    and norm: "tv_norm (tv_pressed k)" "ts_norm now"
    and expired: "ts_ns (ts_wakeup k) \<le> ts_ns now"
    and fits: "sint (time_diff_tv (time_ts2tv now 0) (tv_pressed k)) < 2147483648"
  shows "handle_timeouts_key debug now k
         = (k\<lparr>tv_released := time_ts2tv now 0, has_wakeup := False, state := KEY_HANDLED\<rparr>,
            (if 3 <s debug then [Print_ahead (time_diff_ts (ts_wakeup k) now)] else [])
            @ (if debug \<noteq> 0
               then [Print_running (action (last (actions k)))
                       (time_diff_tv (time_ts2tv now 0) (tv_pressed k))]
               else [])
            @ [System (action (last (actions k)))])"
proof -
  let ?T = "trigger_time (last (actions k))"
  let ?diff = "time_diff_tv (time_ts2tv now 0) (tv_pressed k)"
  have ww: "ts_wide (ts_wakeup k)"
    unfolding st(3) using norm(1) acts(3) by (rule time_tv2ts_wide)
  have fire: "time_diff_ts (ts_wakeup k) now \<le>s 0"
    using time_diff_ts_le0 [OF ww ts_norm_wide [OF norm(2)] expired]
    by (simp add: word_sle_eq)
  have wns: "ts_ns (ts_wakeup k) = tv_us (tv_pressed k) * 1000 + sint ?T * 1000000"
    unfolding st(3) using norm(1) acts(3) by (rule time_tv2ts_ns)
  note r = time_ts2tv_zero [OF norm(2)]
  have "(tv_us (tv_pressed k) + 1000 * sint ?T) * 1000 \<le> ts_ns now"
    using expired wns by simp
  then have "tv_us (tv_pressed k) + 1000 * sint ?T \<le> ts_ns now div 1000"
    by (simp add: zdiv_mono1 [of "(tv_us (tv_pressed k) + 1000 * sint ?T) * 1000" "ts_ns now" 1000, simplified])
  then have "1000 * sint ?T \<le> tv_us (time_ts2tv now 0) - tv_us (tv_pressed k)"
    by (simp add: r(2))
  then have ge: "sint ?T \<le> sint ?diff"
    by (rule time_diff_tv_ge [OF r(1) tv_norm_wide [OF norm(1)]])
  have "sint (ucast ?diff :: cint) = sint ?diff"
    using ge acts(3) fits by (intro sint_ucast_long) linarith+
  then have m: "action_match (last (actions k)) (ucast ?diff)"
    using ge acts(2) by (simp add: action_match_def word_sle_eq)
  have f: "find_key_action (k\<lparr>tv_released := time_ts2tv now 0\<rparr>) (ucast ?diff)
         = Some (last (actions k))"
    using find_key_action_last [of "k\<lparr>tv_released := time_ts2tv now 0\<rparr>" "ucast ?diff"] acts(1) m
    by simp
  show ?thesis
    using st(1,2) fire f by (simp add: handle_timeouts_key_def Let_def)
qed

text \<open>
  What the timeout handler does when it runs at or after the exact deadline
  \<open>press + T\<close> of the last long press (\<open>T \<ge> 0\<close>, normalised timestamps, an elapsed
  time below \<open>2 ^ 31\<close> ms): it sets \<open>tv_released\<close> to the clock reading, runs the
  command of that long press once and leaves the key in \<open>KEY_HANDLED\<close>, where press
  events and timeout passes change nothing and a release leads to \<open>KEY_RELEASED\<close>.
\<close>

lemma held_at_deadline_fires_once:
  assumes "state k0 = KEY_RELEASED" "actions k0 \<noteq> []"
    and "type (last (actions k0)) = LONG_PRESS"
    and "0 \<le> sint (trigger_time (last (actions k0)))"
    and "ev_value ev \<noteq> 0" "tv_norm (ev_time ev)" "ts_norm now"
    and "tv_us (ev_time ev) * 1000 + sint (trigger_time (last (actions k0))) * 1000000
           \<le> ts_ns now"
    and "sint (time_diff_tv (time_ts2tv now 0) (ev_time ev)) < 2147483648"
  shows "let k' = k0\<lparr>tv_pressed := ev_time ev, tv_released := time_ts2tv now 0,
                     ts_wakeup := time_tv2ts (ev_time ev) (trigger_time (last (actions k0))),
                     has_wakeup := False, state := KEY_HANDLED\<rparr>
         in (\<exists>fx. key_run debug k0 [Key_event n0 ev, Timeout now] = Inr (k', fx)
                  \<and> filter is_system fx = [System (action (last (actions k0)))])
            \<and> (\<forall>d steps. list_all is_press steps \<longrightarrow> key_run d k' steps = Inr (k', []))
            \<and> (\<forall>n1 e1. ev_value e1 = 0 \<longrightarrow> handle_key n1 e1 k' = Inr (k'\<lparr>state := KEY_RELEASED\<rparr>))"
proof -
  let ?T = "trigger_time (last (actions k0))"
  let ?k1 = "k0\<lparr>tv_pressed := ev_time ev, state := KEY_PRESSED, has_wakeup := True,
                 ts_wakeup := time_tv2ts (ev_time ev) ?T\<rparr>"
  let ?k' = "k0\<lparr>tv_pressed := ev_time ev, tv_released := time_ts2tv now 0,
                 ts_wakeup := time_tv2ts (ev_time ev) ?T,
                 has_wakeup := False, state := KEY_HANDLED\<rparr>"
  have p: "handle_key n0 ev k0 = Inr ?k1"
    using assms(1,2,3,5) by (rule press_arms_wakeup)
  have e: "ts_ns (ts_wakeup ?k1) \<le> ts_ns now"
    using assms(8) time_tv2ts_ns [OF assms(6) assms(4)] by simp
  have t: "handle_timeouts_key debug now ?k1
         = (?k1\<lparr>tv_released := time_ts2tv now 0, has_wakeup := False, state := KEY_HANDLED\<rparr>,
            (if 3 <s debug then [Print_ahead (time_diff_ts (ts_wakeup ?k1) now)] else [])
            @ (if debug \<noteq> 0
               then [Print_running (action (last (actions ?k1)))
                       (time_diff_tv (time_ts2tv now 0) (tv_pressed ?k1))]
               else [])
            @ [System (action (last (actions ?k1)))])"
    by (rule held_timeout_fires) (use assms e in simp_all)
  have 1: "\<exists>fx. key_run debug k0 [Key_event n0 ev, Timeout now] = Inr (?k', fx)
                  \<and> filter is_system fx = [System (action (last (actions k0)))]"
    by (simp add: p t is_system_def)
  have 2: "key_run d ?k' steps = Inr (?k', [])" if "list_all is_press steps" for d steps
    using that by (intro handled_ignores) simp_all
  have 3: "handle_key n1 e1 ?k' = Inr (?k'\<lparr>state := KEY_RELEASED\<rparr>)" if "ev_value e1 = 0" for n1 e1
    using that by (simp add: handle_key_def)
  show ?thesis unfolding Let_def using 1 2 3 by blast
qed

lemma held_at_deadline_fires_once_example:
  "tv_norm \<lparr>tv_sec = 100, tv_usec = 500000\<rparr> \<and> ts_norm \<lparr>ts_sec = 105, ts_nsec = 500000000\<rparr>
   \<and> sint (time_diff_tv (time_ts2tv \<lparr>ts_sec = 105, ts_nsec = 500000000\<rparr> 0)
             \<lparr>tv_sec = 100, tv_usec = 500000\<rparr>) = 5000
   \<and> (\<exists>fx. key_run 1
          \<lparr>code = 28, has_wakeup = False,
           actions = [\<lparr>type = SHORT_PRESS, trigger_time = 1000, action = Some ''s''\<rparr>,
                      \<lparr>type = LONG_PRESS, trigger_time = 5000, action = Some ''l''\<rparr>],
           tv_pressed = \<lparr>tv_sec = 0, tv_usec = 0\<rparr>, tv_released = \<lparr>tv_sec = 0, tv_usec = 0\<rparr>,
           ts_wakeup = \<lparr>ts_sec = 0, ts_nsec = 0\<rparr>, state = KEY_RELEASED\<rparr>
          [Key_event \<lparr>ts_sec = 100, ts_nsec = 500100000\<rparr>
             \<lparr>ev_time = \<lparr>tv_sec = 100, tv_usec = 500000\<rparr>, ev_type = 1, ev_code = 28, ev_value = 1\<rparr>,
           Timeout \<lparr>ts_sec = 105, ts_nsec = 500000000\<rparr>]
        = Inr (\<lparr>code = 28, has_wakeup = False,
           actions = [\<lparr>type = SHORT_PRESS, trigger_time = 1000, action = Some ''s''\<rparr>,
                      \<lparr>type = LONG_PRESS, trigger_time = 5000, action = Some ''l''\<rparr>],
           tv_pressed = \<lparr>tv_sec = 100, tv_usec = 500000\<rparr>,
           tv_released = \<lparr>tv_sec = 105, tv_usec = 500000\<rparr>,
           ts_wakeup = \<lparr>ts_sec = 105, ts_nsec = 500000000\<rparr>, state = KEY_HANDLED\<rparr>, fx)
        \<and> filter is_system fx = [System (Some ''l'')])"
proof -
  let ?k0 = "\<lparr>code = 28, has_wakeup = False,
           actions = [\<lparr>type = SHORT_PRESS, trigger_time = 1000, action = Some ''s''\<rparr>,
                      \<lparr>type = LONG_PRESS, trigger_time = 5000, action = Some ''l''\<rparr>],
           tv_pressed = \<lparr>tv_sec = 0, tv_usec = 0\<rparr>, tv_released = \<lparr>tv_sec = 0, tv_usec = 0\<rparr>,
           ts_wakeup = \<lparr>ts_sec = 0, ts_nsec = 0\<rparr>, state = KEY_RELEASED\<rparr>"
  let ?ev = "\<lparr>ev_time = \<lparr>tv_sec = 100, tv_usec = 500000\<rparr>, ev_type = 1, ev_code = 28, ev_value = 1\<rparr>"
  let ?now = "\<lparr>ts_sec = 105, ts_nsec = 500000000\<rparr>"
  have tv: "time_ts2tv ?now 0 = \<lparr>tv_sec = 105, tv_usec = 500000\<rparr>"
    by (simp add: time_ts2tv_def c_div_def c_mod_def signed_divide_int_def
        signed_modulo_int_def time_consts)
  have ts: "time_tv2ts \<lparr>tv_sec = 100, tv_usec = 500000\<rparr> 5000 = \<lparr>ts_sec = 105, ts_nsec = 500000000\<rparr>"
    by (simp add: time_tv2ts_def c_div_def c_mod_def signed_divide_int_def
        signed_modulo_int_def time_consts)
  have d: "sint (time_diff_tv \<lparr>tv_sec = 105, tv_usec = 500000\<rparr> \<lparr>tv_sec = 100, tv_usec = 500000\<rparr>) = 5000"
    by (simp add: time_diff_tv_def c_div_def time_consts)
  have h: "state ?k0 = KEY_RELEASED" "actions ?k0 \<noteq> []"
    "type (last (actions ?k0)) = LONG_PRESS"
    "0 \<le> sint (trigger_time (last (actions ?k0)))"
    "ev_value ?ev \<noteq> 0" "tv_norm (ev_time ?ev)" "ts_norm ?now"
    "tv_us (ev_time ?ev) * 1000 + sint (trigger_time (last (actions ?k0))) * 1000000 \<le> ts_ns ?now"
    "sint (time_diff_tv (time_ts2tv ?now 0) (ev_time ?ev)) < 2147483648"
    by (simp_all add: tv_norm_def ts_norm_def tv_us_def ts_ns_def tv d)
  from held_at_deadline_fires_once [OF h, of 1 "\<lparr>ts_sec = 100, ts_nsec = 500100000\<rparr>"]
  have "\<exists>fx. key_run 1 ?k0 [Key_event \<lparr>ts_sec = 100, ts_nsec = 500100000\<rparr> ?ev, Timeout ?now]
        = Inr (?k0\<lparr>tv_pressed := \<lparr>tv_sec = 100, tv_usec = 500000\<rparr>,
                   tv_released := \<lparr>tv_sec = 105, tv_usec = 500000\<rparr>,
                   ts_wakeup := \<lparr>ts_sec = 105, ts_nsec = 500000000\<rparr>,
                   has_wakeup := False, state := KEY_HANDLED\<rparr>, fx)
        \<and> filter is_system fx = [System (Some ''l'')]"
    by (simp add: Let_def tv ts)
  then show ?thesis using h(6,7) by (simp add: tv d)
qed

section \<open>Debounce deadline and the invariant of a key\<close>

lemma time_add_ts_ns:
  fixes msec :: cint
  assumes t: "ts_norm ts" and m: "0 \<le> sint msec"
  shows "ts_ns (time_add_ts ts msec) = ts_ns ts + sint msec * 1000000"
    and "0 \<le> sint (ts_nsec (time_add_ts ts msec)) \<and> sint (ts_nsec (time_add_ts ts msec)) < 1000000000"
proof -
  let ?n = "ts_nsec ts + scast msec * NSECS_IN_MSEC"
  define N where "N = sint (ts_nsec ts) + sint msec * 1000000"
  have r: "sint msec < 2147483648" using sint_cint_range [of msec] by simp
  have u: "0 \<le> sint (ts_nsec ts)" "sint (ts_nsec ts) < 1000000000"
    and s: "- 1125899906842624 \<le> sint (ts_sec ts)" "sint (ts_sec ts) \<le> 1125899906842624"
    using t by (simp_all add: ts_norm_def)
  have 1: "sint ((scast msec :: long) * NSECS_IN_MSEC) = sint msec * 1000000"
    using m r by (subst sint_scale) (simp_all add: NSECS_IN_MSEC_def sint_scast_cint)
  have "- 9223372036854775808 \<le> sint (ts_nsec ts) + sint ((scast msec :: long) * NSECS_IN_MSEC)"
    unfolding 1 using u m r by linarith
  moreover have "sint (ts_nsec ts) + sint ((scast msec :: long) * NSECS_IN_MSEC) < 9223372036854775808"
    unfolding 1 using u m r by linarith
  ultimately have "sint ?n = sint (ts_nsec ts) + sint ((scast msec :: long) * NSECS_IN_MSEC)"
    by (rule sint_add64)
  then have n: "sint ?n = N" by (simp only: 1 N_def)
  have n0: "0 \<le> sint ?n" unfolding n N_def using u m by linarith
  have n1: "sint ?n < 2251799813685248" unfolding n N_def using u r by linarith
  have D: "0 < sint NSECS_IN_SEC" and D': "sint NSECS_IN_SEC = 1000000000"
    by (simp_all add: NSECS_IN_SEC_def)
  note c = carry_norm [OF n0 n1 D s]
  have f1: "sint (ts_nsec (time_add_ts ts msec)) = N mod 1000000000"
    using c(1) by (simp add: time_add_ts_def Let_def n D')
  have f2: "sint (ts_sec (time_add_ts ts msec)) = sint (ts_sec ts) + N div 1000000000"
    using c(2) by (simp add: time_add_ts_def Let_def n D')
  show "ts_ns (time_add_ts ts msec) = ts_ns ts + sint msec * 1000000"
    by (simp add: ts_ns_def f1 f2 N_def algebra_simps)
  show "0 \<le> sint (ts_nsec (time_add_ts ts msec)) \<and> sint (ts_nsec (time_add_ts ts msec)) < 1000000000"
    by (simp add: f1)
qed

text \<open>The invariant is kept by each step.\<close>

lemma handle_key_inv:
  assumes "key_inv k" "handle_key now ev k = Inr k'"
  shows "key_inv k'"
  using assms
  by (cases "state k")
     (auto simp: handle_key_def key_inv_def Let_def split: if_splits sum.splits)

lemma handle_key_actions:
  assumes "handle_key now ev k = Inr k'"
  shows "actions k' = actions k"
  using assms
  by (cases "state k")
     (auto simp: handle_key_def Let_def split: if_splits sum.splits)

lemma handle_key_total:
  assumes "actions k \<noteq> []"
  shows "\<exists>k'. handle_key now ev k = Inr k'"
  using assms
  by (cases "state k") (auto simp: handle_key_def Let_def last_action_def)

lemma handle_timeouts_key_inv:
  assumes "key_inv k"
  shows "key_inv (fst (handle_timeouts_key debug ts k))"
  using assms by (auto simp: handle_timeouts_key_def key_inv_def Let_def)

lemma handle_timeouts_key_actions:
  "actions (fst (handle_timeouts_key debug ts k)) = actions k"
  by (simp add: handle_timeouts_key_def Let_def)

lemma key_run_inv:
  assumes "key_inv k" "key_run debug k steps = Inr (k', fx)"
  shows "key_inv k'"
  using assms
proof (induction steps arbitrary: k fx)
  case Nil
  then show ?case by simp
next
  case (Cons s steps)
  show ?case
  proof (cases s)
    case (Key_event now ev)
    with Cons.prems(2) obtain k1 where
      k1: "handle_key now ev k = Inr k1" "key_run debug k1 steps = Inr (k', fx)"
      by (auto split: sum.splits)
    from handle_key_inv [OF Cons.prems(1) k1(1)] k1(2) show ?thesis
      by (rule Cons.IH)
  next
    case (Timeout ts)
    obtain k1 fx1 where h: "handle_timeouts_key debug ts k = (k1, fx1)"
      by (cases "handle_timeouts_key debug ts k")
    with Cons.prems(2) Timeout obtain fx2 where
      r: "key_run debug k1 steps = Inr (k', fx2)"
      by (auto split: sum.splits)
    have "key_inv k1" using handle_timeouts_key_inv [OF Cons.prems(1), of debug ts] h by simp
    then show ?thesis using r by (rule Cons.IH)
  qed
qed

lemma key_run_total:
  assumes "actions k \<noteq> []"
  shows "\<exists>k' fx. key_run debug k steps = Inr (k', fx)"
  using assms
proof (induction steps arbitrary: k)
  case Nil
  then show ?case by simp
next
  case (Cons s steps)
  show ?case
  proof (cases s)
    case (Key_event now ev)
    from handle_key_total [OF Cons.prems] obtain k1 where k1: "handle_key now ev k = Inr k1"
      by blast
    then have "actions k1 \<noteq> []" using Cons.prems handle_key_actions by metis
    from Cons.IH [OF this] k1 Key_event show ?thesis by simp
  next
    case (Timeout ts)
    obtain k1 fx1 where h: "handle_timeouts_key debug ts k = (k1, fx1)"
      by (cases "handle_timeouts_key debug ts k")
    then have "actions k1 \<noteq> []"
      using Cons.prems handle_timeouts_key_actions [of debug ts k] by simp
    from Cons.IH [OF this] obtain k' fx where "key_run debug k1 steps = Inr (k', fx)" by blast
    with h Timeout show ?thesis by simp
  qed
qed

section \<open>Events for unconfigured keys\<close>

lemma lookup_key_None: "lookup_key ks c = None \<longleftrightarrow> (\<forall>k\<in>set ks. code k \<noteq> c)"
  by (induction ks) auto

section \<open>Sorting the configured actions\<close>

lemma mset_qsort_insert: "mset (qsort_insert cmp x ys) = add_mset x (mset ys)"
  by (induction ys) simp_all

lemma mset_qsort: "mset (qsort cmp xs) = mset xs"
  by (induction xs) (simp_all add: qsort_def mset_qsort_insert)

lemma set_qsort_insert: "set (qsort_insert cmp x ys) = insert x (set ys)"
  by (induction ys) auto

lemma compare_le_iff:
  "sort_actions_compare a b \<le> 0
   \<longleftrightarrow> type a = SHORT_PRESS \<or> (type b \<noteq> SHORT_PRESS \<and> trigger_time a \<le>s trigger_time b)"
  by (auto simp: sort_actions_compare_def word_sle_eq word_sless_alt)

lemma compare_total: "sort_actions_compare a b \<le> 0 \<or> sort_actions_compare b a \<le> 0"
  by (auto simp: compare_le_iff word_sle_eq)

lemma compare_trans:
  "sort_actions_compare a b \<le> 0 \<Longrightarrow> sort_actions_compare b c \<le> 0
   \<Longrightarrow> sort_actions_compare a c \<le> 0"
  by (auto simp: compare_le_iff word_sle_eq)

lemma sorted_qsort_insert:
  assumes "sorted_wrt (\<lambda>a b. sort_actions_compare a b \<le> 0) ys"
  shows "sorted_wrt (\<lambda>a b. sort_actions_compare a b \<le> 0) (qsort_insert sort_actions_compare x ys)"
  using assms
proof (induction ys)
  case Nil
  then show ?case by simp
next
  case (Cons y ys)
  show ?case
  proof (cases "sort_actions_compare x y \<le> 0")
    case True
    then have "\<forall>z\<in>set ys. sort_actions_compare x z \<le> 0"
      using Cons.prems compare_trans by auto
    with True Cons.prems show ?thesis by simp
  next
    case False
    then have "sort_actions_compare y x \<le> 0" using compare_total by blast
    with False Cons show ?thesis by (auto simp: set_qsort_insert)
  qed
qed

lemma sorted_qsort:
  "sorted_wrt (\<lambda>a b. sort_actions_compare a b \<le> 0) (qsort sort_actions_compare xs)"
proof (induction xs)
  case Nil
  then show ?case by (simp add: qsort_def)
next
  case (Cons x xs)
  then show ?case using sorted_qsort_insert [of "qsort sort_actions_compare xs" x]
    by (simp add: qsort_def)
qed

text \<open>A list ordered by the comparison function, with at most one short press.\<close>

lemma compare_sorted_actions_sorted:
  assumes s: "sorted_wrt (\<lambda>a b. sort_actions_compare a b \<le> 0) ys"
    and c: "length (filter (\<lambda>a. type a = SHORT_PRESS) ys) \<le> 1"
  shows "actions_sorted ys"
proof -
  have 1: "list_all (\<lambda>a. type a = LONG_PRESS) (tl ys)"
  proof (cases ys)
    case Nil
    then show ?thesis by simp
  next
    case (Cons y rest)
    have "type z = LONG_PRESS" if z: "z \<in> set rest" for z
    proof (rule ccontr)
      assume "type z \<noteq> LONG_PRESS"
      then have tz: "type z = SHORT_PRESS" by (cases "type z") simp_all
      from s Cons z have "sort_actions_compare y z \<le> 0" by simp
      with tz have ty: "type y = SHORT_PRESS" by (simp add: compare_le_iff)
      from z tz have "filter (\<lambda>a. type a = SHORT_PRESS) rest \<noteq> []"
        by (auto simp: filter_empty_conv)
      then have "1 \<le> length (filter (\<lambda>a. type a = SHORT_PRESS) rest)"
        by (cases "filter (\<lambda>a. type a = SHORT_PRESS) rest") simp_all
      with c Cons ty show False by simp
    qed
    with Cons show ?thesis by (simp add: list_all_iff)
  qed
  have "sorted_wrt (\<lambda>a b. sort_actions_compare a b \<le> 0) (longs ys)"
    unfolding longs_def using s by (rule sorted_wrt_filter)
  then have 2: "sorted_wrt (\<lambda>a b. trigger_time a \<le>s trigger_time b) (longs ys)"
    by (rule sorted_wrt_mono_rel [rotated]) (auto simp: longs_def compare_le_iff)
  show ?thesis using 1 2 by (simp add: actions_sorted_def)
qed

lemma short_count_mset:
  "mset xs = mset ys \<Longrightarrow>
   length (filter (\<lambda>a. type a = SHORT_PRESS) xs) = length (filter (\<lambda>a. type a = SHORT_PRESS) ys)"
  by (metis mset_filter size_mset)

lemma sort_actions_sorted:
  assumes "length (filter (\<lambda>a. type a = SHORT_PRESS) (actions k)) \<le> 1"
  shows "actions_sorted (actions (sort_actions k))"
    and "length (filter (\<lambda>a. type a = SHORT_PRESS) (actions (sort_actions k))) \<le> 1"
    and "mset (actions (sort_actions k)) = mset (actions k)"
proof -
  show m: "mset (actions (sort_actions k)) = mset (actions k)"
    by (simp add: sort_actions_def mset_qsort)
  show c: "length (filter (\<lambda>a. type a = SHORT_PRESS) (actions (sort_actions k))) \<le> 1"
    using assms short_count_mset [OF m] by simp
  show "actions_sorted (actions (sort_actions k))"
    using sorted_qsort [of "actions k"] c
    by (intro compare_sorted_actions_sorted) (simp_all add: sort_actions_def)
qed

lemma one_short_update:
  assumes "one_short ks" "length (filter (\<lambda>a. type a = SHORT_PRESS) (actions k)) \<le> 1"
  shows "one_short (ks[i := k])"
  using assms set_update_subset_insert [of ks i k] by (auto simp: one_short_def)

lemma short_count_list_update:
  assumes "type (f (xs ! j)) = type (xs ! j)"
  shows "length (filter (\<lambda>a. type a = SHORT_PRESS) (xs[j := f (xs ! j)]))
         = length (filter (\<lambda>a. type a = SHORT_PRESS) xs)"
proof -
  have "map type (xs[j := f (xs ! j)]) = map type xs"
  proof (cases "j < length xs")
    case True
    then have "(map type xs)[j := map type xs ! j] = map type xs" by (simp only: list_update_id)
    with True assms show ?thesis by (simp add: map_update)
  next
    case False
    then have "xs[j := f (xs ! j)] = xs" by (intro list_update_beyond) simp
    then show ?thesis by simp
  qed
  then have "filter (\<lambda>t. t = SHORT_PRESS) (map type (xs[j := f (xs ! j)]))
           = filter (\<lambda>t. t = SHORT_PRESS) (map type xs)" by simp
  then have "length (filter ((\<lambda>t. t = SHORT_PRESS) \<circ> type) (xs[j := f (xs ! j)]))
           = length (filter ((\<lambda>t. t = SHORT_PRESS) \<circ> type) xs)"
    unfolding filter_map by (metis length_map)
  then show ?thesis by (simp add: comp_def)
qed

lemma update_cur_action_one_short:
  assumes "one_short (cfg_keys cfg)" "update_cur_action cfg f msg = Inr cfg'"
    and "\<And>a. type (f a) = type a"
  shows "one_short (cfg_keys cfg')"
proof (cases "cfg_cur_action cfg")
  case None
  with assms(2) show ?thesis by (simp add: update_cur_action_def)
next
  case (Some ij)
  obtain i j where ij: "ij = (i, j)" by (cases ij)
  let ?k = "cfg_keys cfg ! i"
  have c: "cfg_keys cfg' = (cfg_keys cfg)[i := ?k\<lparr>actions := (actions ?k)[j := f (actions ?k ! j)]\<rparr>]"
    using assms(2) Some ij by (auto simp: update_cur_action_def Let_def)
  show ?thesis
  proof (cases "i < length (cfg_keys cfg)")
    case False
    then have "cfg_keys cfg' = cfg_keys cfg" unfolding c by (intro list_update_beyond) simp
    then show ?thesis using assms(1) by simp
  next
    case True
    then have "length (filter (\<lambda>a. type a = SHORT_PRESS) (actions ?k)) \<le> 1"
      using assms(1) by (simp add: one_short_def)
    then have "length (filter (\<lambda>a. type a = SHORT_PRESS)
                 (actions (?k\<lparr>actions := (actions ?k)[j := f (actions ?k ! j)]\<rparr>))) \<le> 1"
      using short_count_list_update [of f "actions ?k" j] assms(3) by simp
    with assms(1) show ?thesis unfolding c by (rule one_short_update)
  qed
qed

lemma lookup_key_Some: "lookup_key ks c = Some i \<Longrightarrow> i < length ks"
  by (induction ks arbitrary: i) (auto split: if_splits)

lemma add_key_action_one_short:
  assumes "one_short (cfg_keys cfg)" "add_key_action cfg short c = Inr cfg'"
  shows "one_short (cfg_keys cfg')"
proof -
  define ks where "ks = (case lookup_key (cfg_keys cfg) c of
       Some i \<Rightarrow> cfg_keys cfg | None \<Rightarrow> cfg_keys cfg @ [new_key c])"
  define i where "i = (case lookup_key (cfg_keys cfg) c of
       Some i \<Rightarrow> i | None \<Rightarrow> length (cfg_keys cfg))"
  have o: "one_short ks"
    using assms(1) by (auto simp: ks_def one_short_def new_key_def split: option.splits)
  have il: "i < length ks"
    by (auto simp: ks_def i_def lookup_key_Some split: option.splits)
  from assms(2) obtain a where
    a: "(if short then add_short_action (ks ! i) else add_long_action (ks ! i)) = Inr a"
    and c: "cfg_keys cfg' = ks[i := (ks ! i)\<lparr>actions := actions (ks ! i) @ [a]\<rparr>]"
    by (auto simp: add_key_action_def ks_def i_def Let_def split: if_splits option.splits sum.splits)
  have k1: "length (filter (\<lambda>a. type a = SHORT_PRESS) (actions (ks ! i))) \<le> 1"
    using o il by (simp add: one_short_def)
  have "length (filter (\<lambda>a. type a = SHORT_PRESS) (actions (ks ! i) @ [a])) \<le> 1"
  proof (cases short)
    case True
    with a have "\<not> list_ex (\<lambda>a. type a = SHORT_PRESS) (actions (ks ! i))"
      by (auto simp: add_short_action_def split: if_splits)
    then have "filter (\<lambda>a. type a = SHORT_PRESS) (actions (ks ! i)) = []"
      by (simp add: list_ex_iff filter_empty_conv)
    then show ?thesis by simp
  next
    case False
    with a have "type a = LONG_PRESS" by (auto simp: add_long_action_def)
    with k1 show ?thesis by simp
  qed
  then have "length (filter (\<lambda>a. type a = SHORT_PRESS)
      (actions ((ks ! i)\<lparr>actions := actions (ks ! i) @ [a]\<rparr>))) \<le> 1" by simp
  with o show ?thesis unfolding c by (rule one_short_update)
qed

lemma parse_opt_one_short:
  assumes "one_short (cfg_keys cfg)" "parse_opt cfg x = Inr cfg'"
  shows "one_short (cfg_keys cfg')"
proof (cases x)
  case (Opt_s c)
  with assms show ?thesis using add_key_action_one_short by simp
next
  case (Opt_l c)
  with assms show ?thesis using add_key_action_one_short by simp
next
  case (Opt_a cmd)
  with assms show ?thesis using update_cur_action_one_short [of cfg "\<lambda>a. a\<lparr>action := Some cmd\<rparr>"]
    by simp
next
  case (Opt_t t)
  with assms show ?thesis using update_cur_action_one_short [of cfg "\<lambda>a. a\<lparr>trigger_time := t\<rparr>"]
    by simp
qed

lemma parse_opts_one_short:
  assumes "one_short (cfg_keys cfg)" "parse_opts cfg xs = Inr cfg'"
  shows "one_short (cfg_keys cfg')"
  using assms
proof (induction xs arbitrary: cfg)
  case Nil
  then show ?case by simp
next
  case (Cons x xs)
  from Cons.prems(2) obtain c1 where
    c1: "parse_opt cfg x = Inr c1" "parse_opts c1 xs = Inr cfg'"
    by (auto split: sum.splits)
  from parse_opt_one_short [OF Cons.prems(1) c1(1)] c1(2) show ?case by (rule Cons.IH)
qed

lemmas configure_eval =
  configure_def add_key_action_def update_cur_action_def cur_action_unset_def
  add_short_action_def add_long_action_def new_key_def sort_actions_def qsort_def
  sort_actions_compare_def DEFAULT_SHORT_PRESS_MSECS_def DEFAULT_LONG_PRESS_MSECS_def
  word_sless_alt Let_def

section \<open>C1: the action matcher scans from the end\<close>

text \<open>
  C1. \<open>find_key_action\<close> returns the first action of the reversed list that matches,
  where a long press matches iff \<open>trigger_time \<le> time\<close> and a short press iff
  \<open>time < trigger_time\<close> (signed). With the default short press at 1000 ms and long press
  at 5000 ms, 999 gives the short action, 1000 gives none and 5000 gives the long action.
  On a sorted list (short press first, long presses ascending) on which some long press
  has reached its trigger time, the result is a long press that has reached its trigger
  time and no other such long press has a larger one.
\<close>

theorem find_key_action_reverse_scan:
  "find_key_action k time = List.find (\<lambda>a. action_match a time) (rev (actions k))
   \<and> (\<forall>a. action_match a time
          = (if type a = LONG_PRESS then sint (trigger_time a) \<le> sint time
             else sint time < sint (trigger_time a)))
   \<and> (\<forall>c l. find_key_action
              (k\<lparr>actions := [\<lparr>type = SHORT_PRESS, trigger_time = DEFAULT_SHORT_PRESS_MSECS, action = c\<rparr>,
                             \<lparr>type = LONG_PRESS, trigger_time = DEFAULT_LONG_PRESS_MSECS, action = l\<rparr>]\<rparr>) 999
            = Some \<lparr>type = SHORT_PRESS, trigger_time = 1000, action = c\<rparr>
          \<and> find_key_action
              (k\<lparr>actions := [\<lparr>type = SHORT_PRESS, trigger_time = DEFAULT_SHORT_PRESS_MSECS, action = c\<rparr>,
                             \<lparr>type = LONG_PRESS, trigger_time = DEFAULT_LONG_PRESS_MSECS, action = l\<rparr>]\<rparr>) 1000
            = None
          \<and> find_key_action
              (k\<lparr>actions := [\<lparr>type = SHORT_PRESS, trigger_time = DEFAULT_SHORT_PRESS_MSECS, action = c\<rparr>,
                             \<lparr>type = LONG_PRESS, trigger_time = DEFAULT_LONG_PRESS_MSECS, action = l\<rparr>]\<rparr>) 5000
            = Some \<lparr>type = LONG_PRESS, trigger_time = 5000, action = l\<rparr>)
   \<and> (actions_sorted (actions k)
        \<and> (\<exists>b\<in>set (actions k). type b = LONG_PRESS \<and> trigger_time b \<le>s time)
      \<longrightarrow> (\<exists>a. find_key_action k time = Some a \<and> a \<in> set (actions k)
               \<and> type a = LONG_PRESS \<and> trigger_time a \<le>s time
               \<and> (\<forall>b\<in>set (actions k). type b = LONG_PRESS \<and> trigger_time b \<le>s time
                     \<longrightarrow> trigger_time b \<le>s trigger_time a)))"
proof -
  have 1: "find_key_action k time = List.find (\<lambda>a. action_match a time) (rev (actions k))"
    by (rule find_key_action_find)
  have 2: "\<forall>a. action_match a time
          = (if type a = LONG_PRESS then sint (trigger_time a) \<le> sint time
             else sint time < sint (trigger_time a))"
    by (simp add: action_match_def word_sle_eq word_sless_alt split: type.split)
  have 3: "find_key_action (k\<lparr>actions := [\<lparr>type = SHORT_PRESS, trigger_time = DEFAULT_SHORT_PRESS_MSECS, action = c\<rparr>,
                             \<lparr>type = LONG_PRESS, trigger_time = DEFAULT_LONG_PRESS_MSECS, action = l\<rparr>]\<rparr>) 999
            = Some \<lparr>type = SHORT_PRESS, trigger_time = 1000, action = c\<rparr>
          \<and> find_key_action
              (k\<lparr>actions := [\<lparr>type = SHORT_PRESS, trigger_time = DEFAULT_SHORT_PRESS_MSECS, action = c\<rparr>,
                             \<lparr>type = LONG_PRESS, trigger_time = DEFAULT_LONG_PRESS_MSECS, action = l\<rparr>]\<rparr>) 1000
            = None
          \<and> find_key_action
              (k\<lparr>actions := [\<lparr>type = SHORT_PRESS, trigger_time = DEFAULT_SHORT_PRESS_MSECS, action = c\<rparr>,
                             \<lparr>type = LONG_PRESS, trigger_time = DEFAULT_LONG_PRESS_MSECS, action = l\<rparr>]\<rparr>) 5000
            = Some \<lparr>type = LONG_PRESS, trigger_time = 5000, action = l\<rparr>" for c l
    by (simp add: find_key_action_find action_match_def DEFAULT_SHORT_PRESS_MSECS_def
        DEFAULT_LONG_PRESS_MSECS_def)
  have 4: "\<exists>a. find_key_action k time = Some a \<and> a \<in> set (actions k)
               \<and> type a = LONG_PRESS \<and> trigger_time a \<le>s time
               \<and> (\<forall>b\<in>set (actions k). type b = LONG_PRESS \<and> trigger_time b \<le>s time
                     \<longrightarrow> trigger_time b \<le>s trigger_time a)"
    if "actions_sorted (actions k)"
      "\<exists>b\<in>set (actions k). type b = LONG_PRESS \<and> trigger_time b \<le>s time"
    unfolding 1 using that by (rule longest_tier)
  show ?thesis using 1 2 3 4 by blast
qed

theorem find_key_action_reverse_scan_witness:
  "actions_sorted [\<lparr>type = LONG_PRESS, trigger_time = 5000, action = Some ''a''\<rparr>,
                   \<lparr>type = LONG_PRESS, trigger_time = 10000, action = Some ''b''\<rparr>]
   \<and> (\<exists>b\<in>set [\<lparr>type = LONG_PRESS, trigger_time = 5000, action = Some ''a''\<rparr>,
               \<lparr>type = LONG_PRESS, trigger_time = 10000, action = Some ''b''\<rparr>].
         type b = LONG_PRESS \<and> trigger_time b \<le>s 12000)
   \<and> find_key_action
        \<lparr>code = 28, has_wakeup = False,
         actions = [\<lparr>type = LONG_PRESS, trigger_time = 5000, action = Some ''a''\<rparr>,
                    \<lparr>type = LONG_PRESS, trigger_time = 10000, action = Some ''b''\<rparr>],
         tv_pressed = \<lparr>tv_sec = 0, tv_usec = 0\<rparr>, tv_released = \<lparr>tv_sec = 0, tv_usec = 0\<rparr>,
         ts_wakeup = \<lparr>ts_sec = 0, ts_nsec = 0\<rparr>, state = KEY_RELEASED\<rparr> 12000
      = Some \<lparr>type = LONG_PRESS, trigger_time = 10000, action = Some ''b''\<rparr>"
  using find_key_action_reverse_scan
    [of "\<lparr>code = 28, has_wakeup = False,
         actions = [\<lparr>type = LONG_PRESS, trigger_time = 5000, action = Some ''a''\<rparr>,
                    \<lparr>type = LONG_PRESS, trigger_time = 10000, action = Some ''b''\<rparr>],
         tv_pressed = \<lparr>tv_sec = 0, tv_usec = 0\<rparr>, tv_released = \<lparr>tv_sec = 0, tv_usec = 0\<rparr>,
         ts_wakeup = \<lparr>ts_sec = 0, ts_nsec = 0\<rparr>, state = KEY_RELEASED\<rparr>" 12000]
  by (simp add: actions_sorted_def longs_def action_match_def)

section \<open>C2: debounce coalescing\<close>

text \<open>
  C2. A key whose only action is a short press, in state \<open>KEY_RELEASED\<close> with no
  wakeup, sees press at 0, release at 5 ms, press at 8 ms and release at 50 ms. After the
  press at 8 ms, which arrives in \<open>KEY_DEBOUNCE\<close>, the key is \<open>KEY_PRESSED\<close>,
  \<open>tv_pressed\<close> is still 0 and \<open>has_wakeup\<close> is false: the debounce wakeup is
  cancelled. The whole run makes the timeout handler fire once, at 60 ms, with an elapsed
  time of 50 ms: the command runs once if \<open>50 < trigger_time\<close>, and otherwise the press
  is ignored once; nothing else is run or reported, at every verbosity.
\<close>

theorem debounce_coalescing:
  "key_run debug (short_only_key c trig cmd p r w) (take 6 (coalescing_steps c))
     = Inr (\<lparr>code = c, has_wakeup = False,
             actions = [\<lparr>type = SHORT_PRESS, trigger_time = trig, action = cmd\<rparr>],
             tv_pressed = \<lparr>tv_sec = 0, tv_usec = 0\<rparr>,
             tv_released = \<lparr>tv_sec = 0, tv_usec = 5000\<rparr>,
             ts_wakeup = \<lparr>ts_sec = 0, ts_nsec = 15000000\<rparr>, state = KEY_PRESSED\<rparr>, [])
   \<and> key_run debug (short_only_key c trig cmd p r w) (coalescing_steps c)
     = Inr (\<lparr>code = c, has_wakeup = False,
             actions = [\<lparr>type = SHORT_PRESS, trigger_time = trig, action = cmd\<rparr>],
             tv_pressed = \<lparr>tv_sec = 0, tv_usec = 0\<rparr>,
             tv_released = \<lparr>tv_sec = 0, tv_usec = 50000\<rparr>,
             ts_wakeup = \<lparr>ts_sec = 0, ts_nsec = 60000000\<rparr>, state = KEY_RELEASED\<rparr>,
            (if 3 <s debug then [Print_ahead 0] else [])
            @ (if 50 <s trig
               then (if debug \<noteq> 0 then [Print_running cmd 50] else []) @ [System cmd]
               else (if debug \<noteq> 0 then [Print_ignoring c 50] else [])))"
  by (simp add: short_only_key_def coalescing_steps_def key_event_at_def timeout_at_def run_eval)

section \<open>C3: the wait is the nearest deadline\<close>

text \<open>
  C3, as the code has it. When every pending difference \<open>deadline - now\<close> (in
  milliseconds, as \<open>time_diff_ts\<close> returns it) is below \<open>2 ^ 31\<close>, the value returned by
  \<open>compute_timeout\<close> is \<open>- 1\<close> if no key has a pending wakeup and otherwise the
  smallest pending difference, raised to 0 if it is negative.
\<close>

theorem compute_timeout_min:
  assumes "\<forall>d\<in>set (pending_diffs ts keys). d < 2147483648"
  shows "sint (fst (compute_timeout debug ts keys))
         = (if pending_diffs ts keys = [] then - 1
            else max 0 (Min (set (pending_diffs ts keys))))"
  by (simp add: compute_timeout_def Let_def compute_timeout_loop_fold [OF assms] fold_timeout_step)

theorem compute_timeout_min_witness:
  "pending_diffs \<lparr>ts_sec = 10, ts_nsec = 0\<rparr>
       [\<lparr>code = 1, has_wakeup = True, actions = [], tv_pressed = \<lparr>tv_sec = 0, tv_usec = 0\<rparr>,
         tv_released = \<lparr>tv_sec = 0, tv_usec = 0\<rparr>, ts_wakeup = \<lparr>ts_sec = 12, ts_nsec = 500000000\<rparr>,
         state = KEY_PRESSED\<rparr>,
        \<lparr>code = 2, has_wakeup = False, actions = [], tv_pressed = \<lparr>tv_sec = 0, tv_usec = 0\<rparr>,
         tv_released = \<lparr>tv_sec = 0, tv_usec = 0\<rparr>, ts_wakeup = \<lparr>ts_sec = 0, ts_nsec = 0\<rparr>,
         state = KEY_RELEASED\<rparr>,
        \<lparr>code = 3, has_wakeup = True, actions = [], tv_pressed = \<lparr>tv_sec = 0, tv_usec = 0\<rparr>,
         tv_released = \<lparr>tv_sec = 0, tv_usec = 0\<rparr>, ts_wakeup = \<lparr>ts_sec = 10, ts_nsec = 7000000\<rparr>,
         state = KEY_DEBOUNCE\<rparr>] = [2500, 7]
   \<and> sint (fst (compute_timeout 0 \<lparr>ts_sec = 10, ts_nsec = 0\<rparr>
       [\<lparr>code = 1, has_wakeup = True, actions = [], tv_pressed = \<lparr>tv_sec = 0, tv_usec = 0\<rparr>,
         tv_released = \<lparr>tv_sec = 0, tv_usec = 0\<rparr>, ts_wakeup = \<lparr>ts_sec = 12, ts_nsec = 500000000\<rparr>,
         state = KEY_PRESSED\<rparr>,
        \<lparr>code = 2, has_wakeup = False, actions = [], tv_pressed = \<lparr>tv_sec = 0, tv_usec = 0\<rparr>,
         tv_released = \<lparr>tv_sec = 0, tv_usec = 0\<rparr>, ts_wakeup = \<lparr>ts_sec = 0, ts_nsec = 0\<rparr>,
         state = KEY_RELEASED\<rparr>,
        \<lparr>code = 3, has_wakeup = True, actions = [], tv_pressed = \<lparr>tv_sec = 0, tv_usec = 0\<rparr>,
         tv_released = \<lparr>tv_sec = 0, tv_usec = 0\<rparr>, ts_wakeup = \<lparr>ts_sec = 10, ts_nsec = 7000000\<rparr>,
         state = KEY_DEBOUNCE\<rparr>])) = 7"
proof -
  let ?keys = "[\<lparr>code = 1, has_wakeup = True, actions = [], tv_pressed = \<lparr>tv_sec = 0, tv_usec = 0\<rparr>,
         tv_released = \<lparr>tv_sec = 0, tv_usec = 0\<rparr>, ts_wakeup = \<lparr>ts_sec = 12, ts_nsec = 500000000\<rparr>,
         state = KEY_PRESSED\<rparr>,
        \<lparr>code = 2, has_wakeup = False, actions = [], tv_pressed = \<lparr>tv_sec = 0, tv_usec = 0\<rparr>,
         tv_released = \<lparr>tv_sec = 0, tv_usec = 0\<rparr>, ts_wakeup = \<lparr>ts_sec = 0, ts_nsec = 0\<rparr>,
         state = KEY_RELEASED\<rparr>,
        \<lparr>code = 3, has_wakeup = True, actions = [], tv_pressed = \<lparr>tv_sec = 0, tv_usec = 0\<rparr>,
         tv_released = \<lparr>tv_sec = 0, tv_usec = 0\<rparr>, ts_wakeup = \<lparr>ts_sec = 10, ts_nsec = 7000000\<rparr>,
         state = KEY_DEBOUNCE\<rparr>]"
  have p: "pending_diffs \<lparr>ts_sec = 10, ts_nsec = 0\<rparr> ?keys = [2500, 7]"
    by (simp add: pending_diffs_def time_diff_ts_def c_div_def NSECS_IN_MSEC_def
        signed_divide_int_def)
  have h: "\<forall>d\<in>set (pending_diffs \<lparr>ts_sec = 10, ts_nsec = 0\<rparr> ?keys). d < 2147483648"
    by (simp add: p)
  from compute_timeout_min [OF h, of 0]
  have "sint (fst (compute_timeout 0 \<lparr>ts_sec = 10, ts_nsec = 0\<rparr> ?keys)) = 7"
    by (simp add: p)
  with p show ?thesis by (rule conjI)
qed

text \<open>
  C3 as claimed, for every key table and time, fails: the result is an \<open>int\<close>. A single
  pending deadline \<open>2 ^ 32 - 1\<close> ms ahead is stored as \<open>- 1\<close>, the value that the caller
  reads as "no wakeup pending".
\<close>

theorem compute_timeout_truncation_counterexample:
  "pending_diffs \<lparr>ts_sec = 0, ts_nsec = 0\<rparr>
       [\<lparr>code = 1, has_wakeup = True, actions = [], tv_pressed = \<lparr>tv_sec = 0, tv_usec = 0\<rparr>,
         tv_released = \<lparr>tv_sec = 0, tv_usec = 0\<rparr>,
         ts_wakeup = \<lparr>ts_sec = 4294967, ts_nsec = 295000000\<rparr>, state = KEY_PRESSED\<rparr>]
     = [4294967295]
   \<and> sint (fst (compute_timeout 0 \<lparr>ts_sec = 0, ts_nsec = 0\<rparr>
       [\<lparr>code = 1, has_wakeup = True, actions = [], tv_pressed = \<lparr>tv_sec = 0, tv_usec = 0\<rparr>,
         tv_released = \<lparr>tv_sec = 0, tv_usec = 0\<rparr>,
         ts_wakeup = \<lparr>ts_sec = 4294967, ts_nsec = 295000000\<rparr>, state = KEY_PRESSED\<rparr>])) = - 1"
  by (simp add: pending_diffs_def compute_timeout_def time_diff_ts_def c_div_def
      NSECS_IN_MSEC_def signed_divide_int_def word_sless_alt)

section \<open>C4: a held key and its long press\<close>

text \<open>
  C4 does not hold on the code. The key table of \<open>-l 28 -t 1500 -a cmd\<close>; key 28 is
  pressed at 100 s and held. \<open>compute_timeout\<close>, called 0.1 ms after the press, returns a
  wait of 1499 ms, because \<open>time_diff_ts\<close> drops the last 0.9 ms. The wait ends 0.5 ms
  before the deadline of 101.5 s. There the test \<open>time_diff_ts \<le> 0\<close> of the timeout
  handler already passes, the elapsed time is 1499 ms, no action matches, and the key is
  put in \<open>KEY_HANDLED\<close> with its wakeup cleared. The passes at the deadline and later find
  nothing to do: the key is held past its trigger time and the long press never runs.
\<close>

theorem early_timeout_loses_long_press:
  "configure [Opt_l 28, Opt_t 1500, Opt_a ''cmd'']
     = Inr [new_key 28\<lparr>actions := [\<lparr>type = LONG_PRESS, trigger_time = 1500, action = Some ''cmd''\<rparr>]\<rparr>]
   \<and> handle_key \<lparr>ts_sec = 100, ts_nsec = 100000\<rparr>
        \<lparr>ev_time = \<lparr>tv_sec = 100, tv_usec = 0\<rparr>, ev_type = 1, ev_code = 28, ev_value = 1\<rparr>
        (new_key 28\<lparr>actions := [\<lparr>type = LONG_PRESS, trigger_time = 1500, action = Some ''cmd''\<rparr>]\<rparr>)
     = Inr \<lparr>code = 28, has_wakeup = True,
            actions = [\<lparr>type = LONG_PRESS, trigger_time = 1500, action = Some ''cmd''\<rparr>],
            tv_pressed = \<lparr>tv_sec = 100, tv_usec = 0\<rparr>, tv_released = \<lparr>tv_sec = 0, tv_usec = 0\<rparr>,
            ts_wakeup = \<lparr>ts_sec = 101, ts_nsec = 500000000\<rparr>, state = KEY_PRESSED\<rparr>
   \<and> compute_timeout 0 \<lparr>ts_sec = 100, ts_nsec = 100000\<rparr>
        [\<lparr>code = 28, has_wakeup = True,
          actions = [\<lparr>type = LONG_PRESS, trigger_time = 1500, action = Some ''cmd''\<rparr>],
          tv_pressed = \<lparr>tv_sec = 100, tv_usec = 0\<rparr>, tv_released = \<lparr>tv_sec = 0, tv_usec = 0\<rparr>,
          ts_wakeup = \<lparr>ts_sec = 101, ts_nsec = 500000000\<rparr>, state = KEY_PRESSED\<rparr>]
     = (1499, [])
   \<and> ts_ns \<lparr>ts_sec = 100, ts_nsec = 100000\<rparr> + 1499 * 1000000
       \<le> ts_ns \<lparr>ts_sec = 101, ts_nsec = 499500000\<rparr>
   \<and> ts_ns \<lparr>ts_sec = 101, ts_nsec = 499500000\<rparr> < ts_ns \<lparr>ts_sec = 101, ts_nsec = 500000000\<rparr>
   \<and> key_run 1
        (new_key 28\<lparr>actions := [\<lparr>type = LONG_PRESS, trigger_time = 1500, action = Some ''cmd''\<rparr>]\<rparr>)
        [Key_event \<lparr>ts_sec = 100, ts_nsec = 100000\<rparr>
           \<lparr>ev_time = \<lparr>tv_sec = 100, tv_usec = 0\<rparr>, ev_type = 1, ev_code = 28, ev_value = 1\<rparr>,
         Timeout \<lparr>ts_sec = 101, ts_nsec = 499500000\<rparr>,
         Timeout \<lparr>ts_sec = 101, ts_nsec = 500000000\<rparr>,
         Timeout \<lparr>ts_sec = 110, ts_nsec = 0\<rparr>]
     = Inr (\<lparr>code = 28, has_wakeup = False,
             actions = [\<lparr>type = LONG_PRESS, trigger_time = 1500, action = Some ''cmd''\<rparr>],
             tv_pressed = \<lparr>tv_sec = 100, tv_usec = 0\<rparr>,
             tv_released = \<lparr>tv_sec = 101, tv_usec = 499500\<rparr>,
             ts_wakeup = \<lparr>ts_sec = 101, ts_nsec = 500000000\<rparr>, state = KEY_HANDLED\<rparr>,
            [Print_ignoring 28 1499])"
  by (simp add: configure_eval run_eval compute_timeout_def ts_ns_def)

section \<open>C5: the release transition in the two revisions\<close>

text \<open>
  C5, as the code has it. On a release event in \<open>KEY_PRESSED\<close> both revisions of
  \<open>handle_key\<close> enter \<open>KEY_DEBOUNCE\<close>, store the event time in \<open>tv_released\<close> and set
  \<open>has_wakeup\<close>. The revision of \<open>buttond.c\<close> puts the deadline 10 ms after the clock
  reading \<open>now\<close>; the earlier revision puts it 10 ms after \<open>tv_pressed\<close>. The two
  deadlines differ by exactly \<open>now - tv_pressed\<close>.
\<close>

theorem release_arms_debounce:
  assumes "state k = KEY_PRESSED" "ev_value ev = 0" "ts_norm now" "tv_norm (tv_pressed k)"
  shows "handle_key now ev k
           = Inr (k\<lparr>state := KEY_DEBOUNCE, tv_released := ev_time ev, has_wakeup := True,
                     ts_wakeup := time_add_ts now DEBOUNCE_MSECS\<rparr>)
       \<and> handle_key_old ev k
           = Inr (k\<lparr>state := KEY_DEBOUNCE, tv_released := ev_time ev, has_wakeup := True,
                     ts_wakeup := time_tv2ts (tv_pressed k) DEBOUNCE_MSECS\<rparr>)
       \<and> ts_ns (time_add_ts now DEBOUNCE_MSECS) = ts_ns now + 10000000
       \<and> ts_ns (time_tv2ts (tv_pressed k) DEBOUNCE_MSECS) = tv_us (tv_pressed k) * 1000 + 10000000
       \<and> ts_ns (time_add_ts now DEBOUNCE_MSECS) - ts_ns (time_tv2ts (tv_pressed k) DEBOUNCE_MSECS)
           = ts_ns now - tv_us (tv_pressed k) * 1000"
proof -
  have m: "0 \<le> sint DEBOUNCE_MSECS" "sint DEBOUNCE_MSECS = 10"
    by (simp_all add: DEBOUNCE_MSECS_def)
  have a: "ts_ns (time_add_ts now DEBOUNCE_MSECS) = ts_ns now + 10000000"
    using time_add_ts_ns(1) [OF assms(3) m(1)] by (simp add: m(2))
  have b: "ts_ns (time_tv2ts (tv_pressed k) DEBOUNCE_MSECS) = tv_us (tv_pressed k) * 1000 + 10000000"
    using time_tv2ts_ns [OF assms(4) m(1)] by (simp add: m(2))
  show ?thesis
    using assms(1,2) a b by (simp add: handle_key_def handle_key_old_def)
qed

theorem release_arms_debounce_witness:
  "ts_norm \<lparr>ts_sec = 0, ts_nsec = 50000000\<rparr> \<and> tv_norm \<lparr>tv_sec = 0, tv_usec = 0\<rparr>
   \<and> ts_ns (time_add_ts \<lparr>ts_sec = 0, ts_nsec = 50000000\<rparr> DEBOUNCE_MSECS)
      - ts_ns (time_tv2ts \<lparr>tv_sec = 0, tv_usec = 0\<rparr> DEBOUNCE_MSECS) = 50000000"
proof -
  let ?k = "\<lparr>code = 28, has_wakeup = False,
           actions = [\<lparr>type = SHORT_PRESS, trigger_time = 1000, action = Some ''s''\<rparr>],
           tv_pressed = \<lparr>tv_sec = 0, tv_usec = 0\<rparr>, tv_released = \<lparr>tv_sec = 0, tv_usec = 0\<rparr>,
           ts_wakeup = \<lparr>ts_sec = 0, ts_nsec = 0\<rparr>, state = KEY_PRESSED\<rparr>"
  let ?ev = "\<lparr>ev_time = \<lparr>tv_sec = 0, tv_usec = 50000\<rparr>, ev_type = 1, ev_code = 28, ev_value = 0\<rparr>"
  have h: "state ?k = KEY_PRESSED" "ev_value ?ev = 0" "ts_norm \<lparr>ts_sec = 0, ts_nsec = 50000000\<rparr>"
    "tv_norm (tv_pressed ?k)"
    by (simp_all add: ts_norm_def tv_norm_def)
  from release_arms_debounce [OF h]
  have "ts_ns (time_add_ts \<lparr>ts_sec = 0, ts_nsec = 50000000\<rparr> DEBOUNCE_MSECS)
      - ts_ns (time_tv2ts \<lparr>tv_sec = 0, tv_usec = 0\<rparr> DEBOUNCE_MSECS) = 50000000"
    by (simp add: ts_ns_def tv_us_def)
  with h(3,4) show ?thesis by simp
qed

text \<open>
  C5 as claimed, that both revisions arm the same deadline 10 ms in the future, fails. A
  key pressed at 0 and released at 50 ms, the release handled at 50 ms: \<open>buttond.c\<close>
  arms 60 ms, the earlier revision arms 10 ms, which has already passed.
\<close>

theorem debounce_deadline_revisions_counterexample:
  "handle_key \<lparr>ts_sec = 0, ts_nsec = 50000000\<rparr>
      \<lparr>ev_time = \<lparr>tv_sec = 0, tv_usec = 50000\<rparr>, ev_type = 1, ev_code = 28, ev_value = 0\<rparr>
      \<lparr>code = 28, has_wakeup = False,
       actions = [\<lparr>type = SHORT_PRESS, trigger_time = 1000, action = Some ''s''\<rparr>],
       tv_pressed = \<lparr>tv_sec = 0, tv_usec = 0\<rparr>, tv_released = \<lparr>tv_sec = 0, tv_usec = 0\<rparr>,
       ts_wakeup = \<lparr>ts_sec = 0, ts_nsec = 0\<rparr>, state = KEY_PRESSED\<rparr>
     = Inr \<lparr>code = 28, has_wakeup = True,
       actions = [\<lparr>type = SHORT_PRESS, trigger_time = 1000, action = Some ''s''\<rparr>],
       tv_pressed = \<lparr>tv_sec = 0, tv_usec = 0\<rparr>, tv_released = \<lparr>tv_sec = 0, tv_usec = 50000\<rparr>,
       ts_wakeup = \<lparr>ts_sec = 0, ts_nsec = 60000000\<rparr>, state = KEY_DEBOUNCE\<rparr>
   \<and> handle_key_old
      \<lparr>ev_time = \<lparr>tv_sec = 0, tv_usec = 50000\<rparr>, ev_type = 1, ev_code = 28, ev_value = 0\<rparr>
      \<lparr>code = 28, has_wakeup = False,
       actions = [\<lparr>type = SHORT_PRESS, trigger_time = 1000, action = Some ''s''\<rparr>],
       tv_pressed = \<lparr>tv_sec = 0, tv_usec = 0\<rparr>, tv_released = \<lparr>tv_sec = 0, tv_usec = 0\<rparr>,
       ts_wakeup = \<lparr>ts_sec = 0, ts_nsec = 0\<rparr>, state = KEY_PRESSED\<rparr>
     = Inr \<lparr>code = 28, has_wakeup = True,
       actions = [\<lparr>type = SHORT_PRESS, trigger_time = 1000, action = Some ''s''\<rparr>],
       tv_pressed = \<lparr>tv_sec = 0, tv_usec = 0\<rparr>, tv_released = \<lparr>tv_sec = 0, tv_usec = 50000\<rparr>,
       ts_wakeup = \<lparr>ts_sec = 0, ts_nsec = 10000000\<rparr>, state = KEY_DEBOUNCE\<rparr>
   \<and> ts_ns \<lparr>ts_sec = 0, ts_nsec = 10000000\<rparr> < ts_ns \<lparr>ts_sec = 0, ts_nsec = 50000000\<rparr>"
  by (simp add: run_eval handle_key_old_def ts_ns_def)

section \<open>C6: the time functions\<close>

text \<open>
  C6, as the code has it. For normalised timestamps (sub-second field in range, seconds
  within \<open>2 ^ 50\<close> of zero) \<open>time_diff_tv\<close> and \<open>time_diff_ts\<close> do not overflow and
  return the difference of the sub-second fields, truncated towards zero to whole
  milliseconds, plus 1000 times the difference of the seconds; that value is less than
  one millisecond away from the exact difference of the two instants. For a normalised
  timeval \<open>base\<close> and an offset \<open>msec \<ge> 0\<close>, \<open>time_tv2ts\<close> returns a timespec with
  \<open>0 \<le> ts_nsec < 10 ^ 9\<close> that denotes exactly \<open>base + msec\<close>, and \<open>time_diff_ts\<close>
  between it and the converted base is \<open>msec\<close>.
\<close>

theorem time_arith_ms:
  assumes "tv_norm tv1" "tv_norm tv2" "ts_norm ts1" "ts_norm ts2" "tv_norm base" "0 \<le> sint msec"
  shows "sint (time_diff_tv tv1 tv2)
           = (sint (tv_usec tv1) - sint (tv_usec tv2)) sdiv 1000
             + (sint (tv_sec tv1) - sint (tv_sec tv2)) * 1000
       \<and> \<bar>1000 * sint (time_diff_tv tv1 tv2) - (tv_us tv1 - tv_us tv2)\<bar> < 1000
       \<and> sint (time_diff_ts ts1 ts2)
           = (sint (ts_nsec ts1) - sint (ts_nsec ts2)) sdiv 1000000
             + (sint (ts_sec ts1) - sint (ts_sec ts2)) * 1000
       \<and> \<bar>1000000 * sint (time_diff_ts ts1 ts2) - (ts_ns ts1 - ts_ns ts2)\<bar> < 1000000
       \<and> 0 \<le> sint (ts_nsec (time_tv2ts base msec))
       \<and> sint (ts_nsec (time_tv2ts base msec)) < 1000000000
       \<and> ts_ns (time_tv2ts base msec) = tv_us base * 1000 + sint msec * 1000000
       \<and> sint (time_diff_ts (time_tv2ts base msec) (time_tv2ts base 0)) = sint msec"
proof -
  note tvw = tv_norm_wide [OF assms(1)] tv_norm_wide [OF assms(2)]
  note tsw = ts_norm_wide [OF assms(3)] ts_norm_wide [OF assms(4)]
  have n: "0 \<le> sint (ts_nsec (time_tv2ts base msec))
      \<and> sint (ts_nsec (time_tv2ts base msec)) < 1000000000"
    using time_tv2ts_wide [OF assms(5,6)] by (simp add: ts_wide_def)
  show ?thesis
    using time_diff_tv_sint [OF tvw] time_diff_tv_err [OF tvw]
      time_diff_ts_sint [OF tsw] time_diff_ts_err [OF tsw] n
      time_tv2ts_ns [OF assms(5,6)] time_tv2ts_diff [OF assms(5,6)]
    by blast
qed

theorem time_arith_ms_witness:
  "tv_norm \<lparr>tv_sec = 1, tv_usec = 0\<rparr> \<and> tv_norm \<lparr>tv_sec = 0, tv_usec = 999\<rparr>
   \<and> ts_norm \<lparr>ts_sec = 7, ts_nsec = 250000000\<rparr> \<and> ts_norm \<lparr>ts_sec = 5, ts_nsec = 750000000\<rparr>
   \<and> tv_norm \<lparr>tv_sec = 3, tv_usec = 600000\<rparr> \<and> 0 \<le> sint (5500 :: cint)
   \<and> sint (time_diff_tv \<lparr>tv_sec = 1, tv_usec = 0\<rparr> \<lparr>tv_sec = 0, tv_usec = 999\<rparr>) = 1000
   \<and> sint (time_diff_ts \<lparr>ts_sec = 7, ts_nsec = 250000000\<rparr> \<lparr>ts_sec = 5, ts_nsec = 750000000\<rparr>) = 1500
   \<and> ts_ns (time_tv2ts \<lparr>tv_sec = 3, tv_usec = 600000\<rparr> 5500) = 9100000000
   \<and> sint (time_diff_ts (time_tv2ts \<lparr>tv_sec = 3, tv_usec = 600000\<rparr> 5500)
                          (time_tv2ts \<lparr>tv_sec = 3, tv_usec = 600000\<rparr> 0)) = 5500"
proof -
  have h: "tv_norm \<lparr>tv_sec = 1, tv_usec = 0\<rparr>" "tv_norm \<lparr>tv_sec = 0, tv_usec = 999\<rparr>"
    "ts_norm \<lparr>ts_sec = 7, ts_nsec = 250000000\<rparr>" "ts_norm \<lparr>ts_sec = 5, ts_nsec = 750000000\<rparr>"
    "tv_norm \<lparr>tv_sec = 3, tv_usec = 600000\<rparr>" "0 \<le> sint (5500 :: cint)"
    by (simp_all add: tv_norm_def ts_norm_def)
  show ?thesis
    using h time_arith_ms [OF h]
    by (simp add: tv_us_def signed_divide_int_def)
qed

text \<open>
  C6 as claimed fails: the two functions do not borrow below the millisecond. From
  0 s 999 us to 1 s 0 us the exact difference is 999.001 ms, that is 999 whole
  milliseconds, and \<open>time_diff_tv\<close> returns 1000.
\<close>

theorem time_diff_whole_ms_counterexample:
  "tv_norm \<lparr>tv_sec = 1, tv_usec = 0\<rparr> \<and> tv_norm \<lparr>tv_sec = 0, tv_usec = 999\<rparr>
   \<and> sint (time_diff_tv \<lparr>tv_sec = 1, tv_usec = 0\<rparr> \<lparr>tv_sec = 0, tv_usec = 999\<rparr>) = 1000
   \<and> whole_ms_diff_tv \<lparr>tv_sec = 1, tv_usec = 0\<rparr> \<lparr>tv_sec = 0, tv_usec = 999\<rparr> = 999
   \<and> sint (time_diff_tv \<lparr>tv_sec = 1, tv_usec = 0\<rparr> \<lparr>tv_sec = 0, tv_usec = 999\<rparr>)
       \<noteq> whole_ms_diff_tv \<lparr>tv_sec = 1, tv_usec = 0\<rparr> \<lparr>tv_sec = 0, tv_usec = 999\<rparr>"
  by (simp add: tv_norm_def time_diff_tv_def whole_ms_diff_tv_def tv_us_def c_div_def
      USECS_IN_MSEC_def signed_divide_int_def)

section \<open>C7: the order of a configured action list\<close>

text \<open>
  C7, as the code has it. In every key table that the option parser builds and
  \<open>sort_actions\<close> sorts, each key has at most one short press, every action after the
  first is a long press, and the long presses ascend by trigger time, equal trigger times
  allowed. Sorting keeps the actions of each key.
\<close>

theorem configured_actions_sorted:
  assumes "configure opts = Inr ks"
  shows "(\<forall>k\<in>set ks. actions_sorted (actions k)
            \<and> length (filter (\<lambda>a. type a = SHORT_PRESS) (actions k)) \<le> 1)
       \<and> (\<exists>cfg. parse_opts \<lparr>cfg_keys = [], cfg_cur_action = None\<rparr> opts = Inr cfg
            \<and> map (\<lambda>k. mset (actions k)) ks = map (\<lambda>k. mset (actions k)) (cfg_keys cfg))"
proof -
  from assms obtain cfg where
    p: "parse_opts \<lparr>cfg_keys = [], cfg_cur_action = None\<rparr> opts = Inr cfg"
    and ks: "ks = map sort_actions (cfg_keys cfg)"
    by (auto simp: configure_def split: sum.splits if_splits)
  have "one_short (cfg_keys \<lparr>cfg_keys = [], cfg_cur_action = None\<rparr>)"
    by (simp add: one_short_def)
  from parse_opts_one_short [OF this p] have o: "one_short (cfg_keys cfg)" .
  have 1: "\<forall>k\<in>set ks. actions_sorted (actions k)
            \<and> length (filter (\<lambda>a. type a = SHORT_PRESS) (actions k)) \<le> 1"
    using o sort_actions_sorted(1,2) by (auto simp: ks one_short_def)
  have 2: "map (\<lambda>k. mset (actions k)) ks = map (\<lambda>k. mset (actions k)) (cfg_keys cfg)"
    by (simp add: ks sort_actions_def mset_qsort)
  show ?thesis using 1 2 p by blast
qed

theorem configured_actions_sorted_witness:
  "configure [Opt_l 28, Opt_t 10000, Opt_a ''b'', Opt_s 28, Opt_a ''s'', Opt_l 28, Opt_a ''a'']
     = Inr [new_key 28\<lparr>actions :=
              [\<lparr>type = SHORT_PRESS, trigger_time = 1000, action = Some ''s''\<rparr>,
               \<lparr>type = LONG_PRESS, trigger_time = 5000, action = Some ''a''\<rparr>,
               \<lparr>type = LONG_PRESS, trigger_time = 10000, action = Some ''b''\<rparr>]\<rparr>]
   \<and> actions_sorted
        [\<lparr>type = SHORT_PRESS, trigger_time = 1000, action = Some ''s''\<rparr>,
         \<lparr>type = LONG_PRESS, trigger_time = 5000, action = Some ''a''\<rparr>,
         \<lparr>type = LONG_PRESS, trigger_time = 10000, action = Some ''b''\<rparr>]"
proof -
  have c: "configure [Opt_l 28, Opt_t 10000, Opt_a ''b'', Opt_s 28, Opt_a ''s'', Opt_l 28, Opt_a ''a'']
     = Inr [new_key 28\<lparr>actions :=
              [\<lparr>type = SHORT_PRESS, trigger_time = 1000, action = Some ''s''\<rparr>,
               \<lparr>type = LONG_PRESS, trigger_time = 5000, action = Some ''a''\<rparr>,
               \<lparr>type = LONG_PRESS, trigger_time = 10000, action = Some ''b''\<rparr>]\<rparr>]"
    by (simp add: configure_eval)
  from configured_actions_sorted [OF c]
  have "actions_sorted
        [\<lparr>type = SHORT_PRESS, trigger_time = 1000, action = Some ''s''\<rparr>,
         \<lparr>type = LONG_PRESS, trigger_time = 5000, action = Some ''a''\<rparr>,
         \<lparr>type = LONG_PRESS, trigger_time = 10000, action = Some ''b''\<rparr>]"
    by simp
  with c show ?thesis by (rule conjI)
qed

text \<open>
  C7 as claimed, with strictly ascending trigger times, fails for \<open>-l 28 -a a -l 28 -a b\<close>:
  both long presses keep the default 5000 ms and stay side by side.
\<close>

theorem equal_long_triggers_counterexample:
  "configure [Opt_l 28, Opt_a ''a'', Opt_l 28, Opt_a ''b'']
     = Inr [new_key 28\<lparr>actions :=
              [\<lparr>type = LONG_PRESS, trigger_time = 5000, action = Some ''a''\<rparr>,
               \<lparr>type = LONG_PRESS, trigger_time = 5000, action = Some ''b''\<rparr>]\<rparr>]
   \<and> \<not> actions_sorted_strict
        [\<lparr>type = LONG_PRESS, trigger_time = 5000, action = Some ''a''\<rparr>,
         \<lparr>type = LONG_PRESS, trigger_time = 5000, action = Some ''b''\<rparr>]"
  by (simp add: configure_eval actions_sorted_strict_def longs_def)

section \<open>C8: a source without POLLIN\<close>

text \<open>
  C8, as the code has it. A source whose \<open>revents\<close> is not 0 and lacks \<open>POLLIN\<close>: in
  test mode both revisions of the dispatch loop exit with status 0. Outside test mode the
  loop of \<open>buttond.c\<close> reports the hangup, calls \<open>reopen_input\<close> for that source, whose
  polling entry then holds the descriptor opened on the same path, and the process keeps
  running; the loop of the earlier revision exits with \<open>EXIT_FAILURE\<close>.
\<close>

theorem hangup_dispatch:
  assumes "revents p \<noteq> 0" "revents p AND POLLIN = 0"
  shows "main_poll_source True os_open hin f p ks = Exit 0
       \<and> main_poll_source_old True hin_old p ks = Exit 0
       \<and> (\<exists>p' ks' fx. main_poll_source False os_open hin f p ks = Running (p', ks', fx)
             \<and> fd p' = os_open (filename f)
             \<and> take 3 fx = [Print_hup (filename f), Sys_close (fd p), Sys_open (filename f)])
       \<and> main_poll_source_old False hin_old p ks = Exit EXIT_FAILURE"
proof -
  obtain r ks' fx2 where h: "hin (os_open (filename f)) ks = (r, ks', fx2)"
    by (cases "hin (os_open (filename f)) ks") auto
  have 3: "\<exists>p' ks' fx. main_poll_source False os_open hin f p ks = Running (p', ks', fx)
             \<and> fd p' = os_open (filename f)
             \<and> take 3 fx = [Print_hup (filename f), Sys_close (fd p), Sys_open (filename f)]"
    using assms h by (cases "r = 0") (simp_all add: main_poll_source_def reopen_input_def)
  show ?thesis
    using assms 3 by (simp add: main_poll_source_def main_poll_source_old_def)
qed

theorem hangup_dispatch_witness:
  "revents \<lparr>fd = 3, events = POLLIN, revents = POLLHUP\<rparr> \<noteq> 0
   \<and> revents \<lparr>fd = 3, events = POLLIN, revents = POLLHUP\<rparr> AND POLLIN = 0
   \<and> (\<exists>p' ks' fx.
         main_poll_source False (\<lambda>path. 4) (\<lambda>d ks. (0, ks, []))
           \<lparr>filename = ''/dev/input/event0'', dirent = None, inotify_wd = - 1\<rparr>
           \<lparr>fd = 3, events = POLLIN, revents = POLLHUP\<rparr> []
         = Running (p', ks', fx)
         \<and> fd p' = 4
         \<and> take 3 fx = [Print_hup ''/dev/input/event0'', Sys_close 3,
                         Sys_open ''/dev/input/event0''])"
proof -
  let ?p = "\<lparr>fd = 3, events = POLLIN, revents = POLLHUP\<rparr>"
  let ?f = "\<lparr>filename = ''/dev/input/event0'', dirent = None, inotify_wd = - 1\<rparr>"
  have h: "revents ?p \<noteq> 0" "revents ?p AND POLLIN = 0"
    by (simp_all add: POLLIN_def POLLHUP_def)
  from hangup_dispatch [OF h, of "\<lambda>path. 4" "\<lambda>d ks. (0, ks, [])" ?f "[]"] h
  show ?thesis by simp
qed

text \<open>
  C8 as claimed, for both revisions, fails: outside test mode the earlier revision does
  not reopen the source, it stops the process with a failure status.
\<close>

theorem hangup_old_revision_counterexample:
  "revents \<lparr>fd = 3, events = POLLIN, revents = POLLHUP\<rparr> \<noteq> 0
   \<and> revents \<lparr>fd = 3, events = POLLIN, revents = POLLHUP\<rparr> AND POLLIN = 0
   \<and> main_poll_source_old False (\<lambda>d ks. Running (ks, []))
        \<lparr>fd = 3, events = POLLIN, revents = POLLHUP\<rparr> [] = Exit 1"
  by (simp add: main_poll_source_old_def POLLIN_def POLLHUP_def EXIT_FAILURE_def)

section \<open>C9: other events change nothing\<close>

text \<open>
  C9. For an event whose type is not 1, or whose code is the code of no key of the
  table, \<open>handle_input_event\<close> returns the table unchanged at every verbosity: it
  prints at most one line, runs no command, cannot fail, and its result does not depend
  on the clock reading, the only thing \<open>handle_key\<close> would read.
\<close>

theorem unconfigured_event_is_noop:
  assumes "ev_type event \<noteq> 1 \<or> (\<forall>k\<in>set ks. code k \<noteq> ev_code event)"
  shows "handle_input_event debug now event ks fname
         = Inr (ks,
                if ev_type event \<noteq> 1
                then (if 2 <s debug
                      then print_key debug event fname ''non-keyboard event ignored''
                      else [])
                else (if 1 <s debug then print_key debug event fname ''ignored'' else []))
       \<and> (\<forall>ks' fx. handle_input_event debug now event ks fname = Inr (ks', fx)
             \<longrightarrow> ks' = ks \<and> \<not> list_ex is_system fx \<and> length fx \<le> 1)
       \<and> (\<forall>now'. handle_input_event debug now' event ks fname
             = handle_input_event debug now event ks fname)"
proof -
  have l: "lookup_key ks (ev_code event) = None" if "ev_type event = 1"
    using assms that by (simp add: lookup_key_None)
  have 1: "handle_input_event debug n event ks fname
         = Inr (ks,
                if ev_type event \<noteq> 1
                then (if 2 <s debug
                      then print_key debug event fname ''non-keyboard event ignored''
                      else [])
                else (if 1 <s debug then print_key debug event fname ''ignored'' else []))" for n
    using l by (simp add: handle_input_event_def)
  have 2: "\<not> list_ex is_system (print_key debug event fname m)
      \<and> length (print_key debug event fname m) \<le> 1" for m
    by (simp add: print_key_def is_system_def)
  show ?thesis
    using 2 by (auto simp: 1)
qed

theorem unconfigured_event_is_noop_witness:
  "handle_input_event 3 \<lparr>ts_sec = 1, ts_nsec = 0\<rparr>
      \<lparr>ev_time = \<lparr>tv_sec = 1, tv_usec = 0\<rparr>, ev_type = 1, ev_code = 30, ev_value = 1\<rparr>
      [new_key 28\<lparr>actions := [\<lparr>type = SHORT_PRESS, trigger_time = 1000, action = Some ''s''\<rparr>]\<rparr>]
      ''/dev/input/event0''
   = Inr ([new_key 28\<lparr>actions := [\<lparr>type = SHORT_PRESS, trigger_time = 1000, action = Some ''s''\<rparr>]\<rparr>],
          [Print_key_event 1 0 ''/dev/input/event0'' '' '' 30 True ''ignored''])"
proof -
  let ?ev = "\<lparr>ev_time = \<lparr>tv_sec = 1, tv_usec = 0\<rparr>, ev_type = 1, ev_code = 30, ev_value = 1\<rparr>"
  let ?ks = "[new_key 28\<lparr>actions := [\<lparr>type = SHORT_PRESS, trigger_time = 1000, action = Some ''s''\<rparr>]\<rparr>]"
  have h: "ev_type ?ev \<noteq> 1 \<or> (\<forall>k\<in>set ?ks. code k \<noteq> ev_code ?ev)"
    by (simp add: new_key_def)
  from unconfigured_event_is_noop [OF h, of 3 "\<lparr>ts_sec = 1, ts_nsec = 0\<rparr>" "''/dev/input/event0''"]
  show ?thesis
    by (simp add: print_key_def c_div_def word_sless_alt)
qed

section \<open>C10: the invariant of the key state machine\<close>

text \<open>
  C10. A key starts in \<open>KEY_RELEASED\<close> with no wakeup and is driven by any sequence of
  calls of \<open>handle_key\<close> (on any event, at any clock reading) and passes of the timeout
  handler. The run goes through whenever the key has an action, and in every state it
  reaches, \<open>KEY_DEBOUNCE\<close> implies \<open>has_wakeup\<close>, and \<open>KEY_RELEASED\<close> or
  \<open>KEY_HANDLED\<close> implies that \<open>has_wakeup\<close> is false.
\<close>

theorem key_state_invariant:
  assumes "state k0 = KEY_RELEASED" "\<not> has_wakeup k0"
  shows "(actions k0 \<noteq> [] \<longrightarrow> (\<exists>k fx. key_run debug k0 steps = Inr (k, fx)))
       \<and> (\<forall>k fx. key_run debug k0 steps = Inr (k, fx) \<longrightarrow>
            (state k = KEY_DEBOUNCE \<longrightarrow> has_wakeup k)
            \<and> (state k = KEY_RELEASED \<or> state k = KEY_HANDLED \<longrightarrow> \<not> has_wakeup k))"
proof -
  have i: "key_inv k0" using assms by (simp add: key_inv_def)
  have "key_inv k" if "key_run debug k0 steps = Inr (k, fx)" for k fx
    using i that by (rule key_run_inv)
  then show ?thesis using key_run_total [of k0 debug steps] by (auto simp: key_inv_def)
qed

theorem key_state_invariant_witness:
  "key_run 0 (short_only_key 28 1000 (Some ''s'') \<lparr>tv_sec = 0, tv_usec = 0\<rparr>
                \<lparr>tv_sec = 0, tv_usec = 0\<rparr> \<lparr>ts_sec = 0, ts_nsec = 0\<rparr>)
      (take 4 (coalescing_steps 28))
     = Inr (\<lparr>code = 28, has_wakeup = True,
             actions = [\<lparr>type = SHORT_PRESS, trigger_time = 1000, action = Some ''s''\<rparr>],
             tv_pressed = \<lparr>tv_sec = 0, tv_usec = 0\<rparr>,
             tv_released = \<lparr>tv_sec = 0, tv_usec = 5000\<rparr>,
             ts_wakeup = \<lparr>ts_sec = 0, ts_nsec = 15000000\<rparr>, state = KEY_DEBOUNCE\<rparr>, [])
   \<and> has_wakeup \<lparr>code = 28, has_wakeup = True,
             actions = [\<lparr>type = SHORT_PRESS, trigger_time = 1000, action = Some ''s''\<rparr>],
             tv_pressed = \<lparr>tv_sec = 0, tv_usec = 0\<rparr>,
             tv_released = \<lparr>tv_sec = 0, tv_usec = 5000\<rparr>,
             ts_wakeup = \<lparr>ts_sec = 0, ts_nsec = 15000000\<rparr>, state = KEY_DEBOUNCE\<rparr>"
proof -
  let ?init = "short_only_key 28 1000 (Some ''s'') \<lparr>tv_sec = 0, tv_usec = 0\<rparr>
                \<lparr>tv_sec = 0, tv_usec = 0\<rparr> \<lparr>ts_sec = 0, ts_nsec = 0\<rparr>"
  let ?deb = "\<lparr>code = 28, has_wakeup = True,
             actions = [\<lparr>type = SHORT_PRESS, trigger_time = 1000, action = Some ''s''\<rparr>],
             tv_pressed = \<lparr>tv_sec = 0, tv_usec = 0\<rparr>,
             tv_released = \<lparr>tv_sec = 0, tv_usec = 5000\<rparr>,
             ts_wakeup = \<lparr>ts_sec = 0, ts_nsec = 15000000\<rparr>, state = KEY_DEBOUNCE\<rparr>"
  have h: "state ?init = KEY_RELEASED" "\<not> has_wakeup ?init"
    by (simp_all add: short_only_key_def)
  have r: "key_run 0 ?init (take 4 (coalescing_steps 28)) = Inr (?deb, [])"
    by (simp add: short_only_key_def coalescing_steps_def key_event_at_def timeout_at_def run_eval)
  from key_state_invariant [OF h, of 0 "take 4 (coalescing_steps 28)"] r
  have "state ?deb = KEY_DEBOUNCE \<longrightarrow> has_wakeup ?deb" by blast
  then have "has_wakeup ?deb" by simp
  with r show ?thesis by (rule conjI)
qed

end
